theory Spec2Isabelle
  imports Main "HOL-Library.Word" "HOL-Library.Multiset"
begin

section \<open>NB-IoT eNB MAC: HARQ manager and schedulers\<close>

text \<open>
  A shallow embedding of the scheduling and retransmission core of the nbiot module:
  \<^verbatim>\<open>model/nbiot-mac.{h,cc}\<close> (HARQ entity and manager, MAC PDU),
  \<^verbatim>\<open>model/nbiot-enb-mac.{h,cc}\<close> (UE contexts, round-robin and coverage-class
  schedulers, the per-subframe orchestration) and
  \<^verbatim>\<open>model/nbiot-sps-scheduler.{h,cc}\<close> (semi-persistent scheduling).
  Fixed-width C++ integers are words, \<open>Time\<close> is an integer number of time units,
  every \<open>std::map\<close> is an association list in iteration (ascending key) order, and
  member functions take the object and return it updated.
\<close>

type_synonym u8 = "8 word"
type_synonym u16 = "16 word"
type_synonym u32 = "32 word"
type_synonym u64 = "64 word"
type_synonym Time = int

subsection \<open>Packets and MAC PDUs (nbiot-mac.cc)\<close>

text \<open>An ns-3 packet, as far as the MAC looks at it: its uid and its size in bytes.\<close>

datatype Packet = Packet (GetUid: nat) (GetSize: u32)

text \<open>
  \<open>NbIotMacPdu\<close>: the SDUs added with their logical channel id, the number of padding
  bytes (if \<open>AddPadding\<close> added a padding subheader) and the running size \<open>m_size\<close>.
\<close>

record NbIotMacPdu =
  pdu_sdus :: "(u8 \<times> Packet) list"
  pdu_padding :: "u16 option"
  pdu_size :: u16

definition NbIotMacPdu_new :: NbIotMacPdu where
  "NbIotMacPdu_new = \<lparr>pdu_sdus = [], pdu_padding = None, pdu_size = 0\<rparr>"

text \<open>\<open>NbIotMacSubheader::GetSerializedSize\<close> for a subheader built from (lcid, length).\<close>

definition GetSerializedSize :: "u8 \<Rightarrow> u16 \<Rightarrow> u8" where
  "GetSerializedSize lcid len =
     (if 29 \<le> lcid \<and> lcid \<le> 31 then 1 else if 127 < len then 3 else 2)"

definition AddSdu :: "NbIotMacPdu \<Rightarrow> u8 \<Rightarrow> Packet \<Rightarrow> NbIotMacPdu" where
  "AddSdu pdu lcid sdu =
     (let sduSize = (ucast (GetSize sdu) :: u16)
      in pdu\<lparr>pdu_sdus := pdu_sdus pdu @ [(lcid, sdu)],
              pdu_size := pdu_size pdu + ucast (GetSerializedSize lcid sduSize) + sduSize\<rparr>)"

definition AddPadding :: "NbIotMacPdu \<Rightarrow> u16 \<Rightarrow> NbIotMacPdu" where
  "AddPadding pdu targetSize =
     (if targetSize \<le> pdu_size pdu then pdu
      else pdu\<lparr>pdu_padding := Some (targetSize - pdu_size pdu - 1), pdu_size := targetSize\<rparr>)"

subsection \<open>HARQ entity and manager (nbiot-mac.h, nbiot-mac.cc)\<close>

record NbIotHarqEntity =
  m_active :: bool
  m_txCount :: u8
  m_ndi :: bool
  m_tbs :: u16
  m_repetitions :: u8
  m_packet :: "NbIotMacPdu option"

text \<open>The constructor and \<open>Reset\<close> write the same values; \<open>nullptr\<close> is \<open>None\<close>.\<close>

definition NbIotHarqEntity_new :: NbIotHarqEntity where
  "NbIotHarqEntity_new =
     \<lparr>m_active = False, m_txCount = 0, m_ndi = False, m_tbs = 0, m_repetitions = 1,
      m_packet = None\<rparr>"

definition Reset :: "NbIotHarqEntity \<Rightarrow> NbIotHarqEntity" where
  "Reset e = e\<lparr>m_active := False, m_txCount := 0, m_ndi := False, m_tbs := 0,
               m_repetitions := 1, m_packet := None\<rparr>"

definition IncrementTxCount :: "NbIotHarqEntity \<Rightarrow> NbIotHarqEntity" where
  "IncrementTxCount e = e\<lparr>m_txCount := m_txCount e + 1\<rparr>"

record NbIotHarqManager =
  m_numProcesses :: u8
  m_maxTransmissions :: u8
  m_processes :: "NbIotHarqEntity list"

definition NbIotHarqManager_new :: NbIotHarqManager where
  "NbIotHarqManager_new =
     \<lparr>m_numProcesses = 2, m_maxTransmissions = 8,
      m_processes = replicate 2 NbIotHarqEntity_new\<rparr>"

text \<open>\<open>std::vector::resize\<close>: cut, or fill up with default-constructed entities.\<close>

definition resize :: "NbIotHarqEntity list \<Rightarrow> nat \<Rightarrow> NbIotHarqEntity list" where
  "resize ps n = take n ps @ replicate (n - length ps) NbIotHarqEntity_new"

definition SetNumProcesses :: "NbIotHarqManager \<Rightarrow> u8 \<Rightarrow> NbIotHarqManager" where
  "SetNumProcesses m num = m\<lparr>m_numProcesses := num, m_processes := resize (m_processes m) (unat num)\<rparr>"

definition SetMaxTransmissions :: "NbIotHarqManager \<Rightarrow> u8 \<Rightarrow> NbIotHarqManager" where
  "SetMaxTransmissions m maxTx = m\<lparr>m_maxTransmissions := maxTx\<rparr>"

text \<open>
  The member functions guard the process id with \<open>m_numProcesses\<close> and then index the
  vector \<open>m_processes\<close>. The constructor and \<open>SetNumProcesses\<close> keep the vector at
  exactly \<open>m_numProcesses\<close> elements; an index at or past the end of the vector is
  undefined behaviour in C++ and is the fault \<open>OutOfBounds\<close> here (as is \<open>front()\<close> of
  an empty vector); dereferencing a null \<open>Ptr\<close> is the fault \<open>NullPointer\<close>.
\<close>

datatype fault = OutOfBounds | NullPointer

definition harq_sized :: "NbIotHarqManager \<Rightarrow> bool" where
  "harq_sized m \<longleftrightarrow> length (m_processes m) = unat (m_numProcesses m)"

text \<open>
  \<open>GetAvailableProcess\<close>: the first inactive process among the first \<open>m_numProcesses\<close>,
  or \<open>-1\<close> (an \<open>int8_t\<close>).
\<close>

fun first_inactive :: "NbIotHarqEntity list \<Rightarrow> nat \<Rightarrow> nat option" where
  "first_inactive [] i = None"
| "first_inactive (e # es) i = (if \<not> m_active e then Some i else first_inactive es (Suc i))"

definition GetAvailableProcess :: "NbIotHarqManager \<Rightarrow> fault + int" where
  "GetAvailableProcess m =
     (let n = unat (m_numProcesses m)
      in case first_inactive (take n (m_processes m)) 0 of
           Some i \<Rightarrow> Inr (sint (word_of_nat i :: 8 word))
         | None \<Rightarrow> if length (m_processes m) < n then Inl OutOfBounds else Inr (- 1))"

definition ProcessAck :: "NbIotHarqManager \<Rightarrow> u8 \<Rightarrow> fault + NbIotHarqManager" where
  "ProcessAck m processId =
     (if processId < m_numProcesses m then
        (if unat processId < length (m_processes m)
         then Inr (m\<lparr>m_processes := (m_processes m)[unat processId := Reset (m_processes m ! unat processId)]\<rparr>)
         else Inl OutOfBounds)
      else Inr m)"

definition ProcessNack :: "NbIotHarqManager \<Rightarrow> u8 \<Rightarrow> fault + (bool \<times> NbIotHarqManager)" where
  "ProcessNack m processId =
     (if m_numProcesses m \<le> processId then Inr (False, m)
      else if length (m_processes m) \<le> unat processId then Inl OutOfBounds
      else
        (let process = IncrementTxCount (m_processes m ! unat processId)
         in if m_maxTransmissions m \<le> m_txCount process
            then Inr (False, m\<lparr>m_processes := (m_processes m)[unat processId := Reset process]\<rparr>)
            else Inr (True, m\<lparr>m_processes := (m_processes m)[unat processId := process]\<rparr>)))"

definition ResetProcess :: "NbIotHarqManager \<Rightarrow> u8 \<Rightarrow> fault + NbIotHarqManager" where
  "ResetProcess m processId =
     (if processId < m_numProcesses m then
        (if unat processId < length (m_processes m)
         then Inr (m\<lparr>m_processes := (m_processes m)[unat processId := Reset (m_processes m ! unat processId)]\<rparr>)
         else Inl OutOfBounds)
      else Inr m)"

text \<open>
  A run of \<open>n\<close> consecutive NACKs on one process, as \<open>ProcessHarqFeedback\<close> delivers
  them: the answers in order and the manager afterwards.
\<close>

fun nacks :: "nat \<Rightarrow> NbIotHarqManager \<Rightarrow> u8 \<Rightarrow> fault + (bool list \<times> NbIotHarqManager)" where
  "nacks 0 m processId = Inr ([], m)"
| "nacks (Suc n) m processId =
     (case ProcessNack m processId of
        Inl f \<Rightarrow> Inl f
      | Inr (r, m') \<Rightarrow>
          (case nacks n m' processId of
             Inl f \<Rightarrow> Inl f
           | Inr (rs, m'') \<Rightarrow> Inr (r # rs, m'')))"


subsection \<open>Constants and tables (nbiot-common.h)\<close>

datatype NbIotCoverageClass = CE_LEVEL_0 | CE_LEVEL_1 | CE_LEVEL_2

text \<open>\<open>static_cast<size_t>(coverageClass)\<close>.\<close>

fun cc_index :: "NbIotCoverageClass \<Rightarrow> nat" where
  "cc_index CE_LEVEL_0 = 0"
| "cc_index CE_LEVEL_1 = 1"
| "cc_index CE_LEVEL_2 = 2"

definition NPDSCH_REPETITIONS :: "u8 list" where
  "NPDSCH_REPETITIONS = [1, 2, 3, 4, 5, 6, 7, 8, 9, 10, 12, 14, 16, 20, 24, 28, 32]"

definition NPUSCH_FORMAT1_REPETITIONS :: "u8 list" where
  "NPUSCH_FORMAT1_REPETITIONS = [1, 2, 4, 8, 16, 32, 64, 128]"

definition NPDSCH_TBS_TABLE :: "u16 list" where
  "NPDSCH_TBS_TABLE = [16, 32, 56, 88, 120, 152, 184, 208, 256, 328, 408, 504, 584, 680]"

definition GetTbsFromMcsAndRbs :: "u8 \<Rightarrow> u8 \<Rightarrow> u16" where
  "GetTbsFromMcsAndRbs mcs nRbs =
     (let tbsIndex = (if unat mcs < length NPDSCH_TBS_TABLE then mcs
                      else word_of_nat (length NPDSCH_TBS_TABLE - 1))
      in NPDSCH_TBS_TABLE ! unat tbsIndex)"

subsection \<open>UE contexts, scheduling results and the eNB MAC state (nbiot-enb-mac.h)\<close>

record NbIotUeContext =
  rnti :: u16
  coverageClass :: NbIotCoverageClass
  cqi :: u8
  bsrBuffer :: "u32 list"
  totalBufferSize :: u32
  lastActivity :: Time
  srReceived :: bool
  connected :: bool

definition NbIotUeContext_new :: NbIotUeContext where
  "NbIotUeContext_new =
     \<lparr>rnti = 0, coverageClass = CE_LEVEL_0, cqi = 7, bsrBuffer = replicate 4 0,
      totalBufferSize = 0, lastActivity = 0, srReceived = False, connected = False\<rparr>"

record NbIotUlGrantResult =
  ul_rnti :: u16
  ul_mcs :: u8
  ul_tbSize :: u16
  ul_numSubcarriers :: u8
  ul_numSlots :: u8
  ul_repetitions :: u8
  ul_rv :: u8
  ul_newData :: bool
  ul_harqProcess :: u8

record NbIotDlAssignmentResult =
  dl_rnti :: u16
  dl_mcs :: u8
  dl_tbSize :: u16
  dl_numSubframes :: u8
  dl_repetitions :: u8
  dl_rv :: u8
  dl_newData :: bool
  dl_harqProcess :: u8
  dl_sdus :: "Packet list"

text \<open>
  What the MAC hands to the PHY: the calls made on \<open>m_phy\<close>, in order.
  \<open>TransmitNpdsch_Rar\<close> is the \<open>TransmitNpdsch\<close> call of \<open>GenerateRar\<close>, whose
  payload is a packet of the given size and not a MAC PDU (size, RNTI, TBS, repetitions).
\<close>

datatype phy_call =
    TransmitNpdsch NbIotMacPdu u16 u8 u8
  | TransmitNpdcch_N1 u16 u8 u8 bool u8
  | TransmitNpdcch_N0 u16 u8 u8 bool u8
  | TransmitNpdsch_Rar u32 u16 u16 u8

text \<open>
  The MAC's containers. A \<open>std::map\<close> keyed by RNTI is the list of its entries in
  ascending key order, the order in which the schedulers iterate it; \<open>map_sorted\<close> is the
  container's own invariant. The map holds its contexts through \<open>Ptr\<close>, and \<open>AddUe\<close>
  creates a fresh context for every entry, so no two entries share one and an entry is
  the context itself. \<open>m_dlTxQueues\<close> is only ever read through
  \<open>operator[]\<close>, which creates an empty queue for a missing key, so it is a total
  function with the empty queue as default. \<open>m_phy\<close> is \<open>None\<close> for a null pointer
  and otherwise the calls received so far.
\<close>

definition map_sorted :: "('k::linorder \<times> 'v) list \<Rightarrow> bool" where
  "map_sorted xs \<longleftrightarrow> sorted_wrt (<) (map fst xs)"

text \<open>\<open>m[k] = v\<close> on a \<open>std::map\<close>.\<close>

fun map_assign :: "'k::linorder \<Rightarrow> 'v \<Rightarrow> ('k \<times> 'v) list \<Rightarrow> ('k \<times> 'v) list" where
  "map_assign k v [] = [(k, v)]"
| "map_assign k v ((k', v') # xs) =
     (if k < k' then (k, v) # (k', v') # xs
      else if k = k' then (k, v) # xs
      else (k', v') # map_assign k v xs)"

text \<open>Writing through the iterator or pointer that \<open>find(k)\<close> returns.\<close>

fun map_modify :: "'k \<Rightarrow> ('v \<Rightarrow> 'v) \<Rightarrow> ('k \<times> 'v) list \<Rightarrow> ('k \<times> 'v) list" where
  "map_modify k f [] = []"
| "map_modify k f ((k', v) # xs) =
     (if k' = k then (k', f v) # xs else (k', v) # map_modify k f xs)"

definition map_erase :: "'k \<Rightarrow> ('k \<times> 'v) list \<Rightarrow> ('k \<times> 'v) list" where
  "map_erase k xs = filter (\<lambda>(k', v). k' \<noteq> k) xs"

record NbIotRoundRobinScheduler =
  m_lastDlRnti :: u16
  m_lastUlRnti :: u16

definition NbIotRoundRobinScheduler_new :: NbIotRoundRobinScheduler where
  "NbIotRoundRobinScheduler_new = \<lparr>m_lastDlRnti = 0, m_lastUlRnti = 0\<rparr>"

record NbIotSpsConfig =
  sps_rnti :: u16
  spsInterval :: Time
  sps_numSubcarriers :: u8
  sps_mcs :: u8
  sps_tbSize :: u16
  sps_repetitions :: u8
  nextAllocation :: Time
  active :: bool
  sps_harqProcess :: u8

text \<open>The default constructor; times are in milliseconds.\<close>

definition NbIotSpsConfig_new :: NbIotSpsConfig where
  "NbIotSpsConfig_new =
     \<lparr>sps_rnti = 0, spsInterval = 20, sps_numSubcarriers = 12, sps_mcs = 4, sps_tbSize = 88,
      sps_repetitions = 1, nextAllocation = 0, active = False, sps_harqProcess = 0\<rparr>"

record NbIotSpsScheduler =
  m_spsConfigs :: "(u16 \<times> NbIotSpsConfig) list"
  m_defaultSpsInterval :: Time
  m_autoActivateSps :: bool
  m_paddingTransmissions :: u32
  m_dataTransmissions :: u32
  m_lastDynamicRnti :: u16
  m_subframeCounter :: u64

definition NbIotSpsScheduler_new :: NbIotSpsScheduler where
  "NbIotSpsScheduler_new =
     \<lparr>m_spsConfigs = [], m_defaultSpsInterval = 20, m_autoActivateSps = True,
      m_paddingTransmissions = 0, m_dataTransmissions = 0, m_lastDynamicRnti = 0,
      m_subframeCounter = 0\<rparr>"

text \<open>The three concrete classes behind \<open>Ptr<NbIotScheduler>\<close>.\<close>

datatype NbIotScheduler =
    RoundRobin NbIotRoundRobinScheduler
  | CoverageClass
  | Sps NbIotSpsScheduler

record NbIotEnbMac =
  m_ueContexts :: "(u16 \<times> NbIotUeContext) list"
  m_dlTxQueues :: "u16 \<Rightarrow> (u8 \<times> Packet) list"
  m_dlHarqManagers :: "(u16 \<times> NbIotHarqManager) list"
  m_ulHarqManagers :: "(u16 \<times> NbIotHarqManager) list"
  m_phy :: "phy_call list option"
  m_scheduler :: "NbIotScheduler option"
  m_nextRnti :: u16

text \<open>
  \<open>NbIotScheduler::GetUeContext\<close>: a scheduler reaches the contexts through its
  \<open>m_mac\<close> pointer, which is \<open>None\<close> when unset.
\<close>

definition GetUeContext :: "NbIotEnbMac option \<Rightarrow> u16 \<Rightarrow> NbIotUeContext option" where
  "GetUeContext m_mac r = (case m_mac of None \<Rightarrow> None | Some mac \<Rightarrow> map_of (m_ueContexts mac) r)"

subsection \<open>MAC entry points that touch the contexts and queues (nbiot-enb-mac.cc)\<close>

definition TransmitSdu :: "NbIotEnbMac \<Rightarrow> u16 \<Rightarrow> u8 \<Rightarrow> Packet \<Rightarrow> NbIotEnbMac" where
  "TransmitSdu mac r lcid packet =
     mac\<lparr>m_dlTxQueues := (m_dlTxQueues mac)(r := m_dlTxQueues mac r @ [(lcid, packet)]),
         m_ueContexts := map_modify r
            (\<lambda>c. c\<lparr>totalBufferSize := totalBufferSize c + GetSize packet\<rparr>) (m_ueContexts mac)\<rparr>"

definition ProcessBsr :: "NbIotEnbMac \<Rightarrow> u16 \<Rightarrow> NbIotEnbMac" where
  "ProcessBsr mac r =
     mac\<lparr>m_ueContexts := map_modify r
            (\<lambda>c. c\<lparr>totalBufferSize := 100, srReceived := True\<rparr>) (m_ueContexts mac)\<rparr>"

definition ProcessSchedulingRequest :: "NbIotEnbMac \<Rightarrow> u16 \<Rightarrow> NbIotEnbMac" where
  "ProcessSchedulingRequest mac r =
     mac\<lparr>m_ueContexts := map_modify r (\<lambda>c. c\<lparr>srReceived := True\<rparr>) (m_ueContexts mac)\<rparr>"

definition AddUe :: "NbIotEnbMac \<Rightarrow> u16 \<Rightarrow> NbIotCoverageClass \<Rightarrow> NbIotEnbMac" where
  "AddUe mac r cc =
     mac\<lparr>m_ueContexts := map_assign r
            (NbIotUeContext_new\<lparr>rnti := r, coverageClass := cc, connected := True\<rparr>)
            (m_ueContexts mac),
         m_dlHarqManagers := map_assign r NbIotHarqManager_new (m_dlHarqManagers mac),
         m_ulHarqManagers := map_assign r NbIotHarqManager_new (m_ulHarqManagers mac)\<rparr>"

definition RemoveUe :: "NbIotEnbMac \<Rightarrow> u16 \<Rightarrow> NbIotEnbMac" where
  "RemoveUe mac r =
     mac\<lparr>m_ueContexts := map_erase r (m_ueContexts mac),
         m_dlTxQueues := (m_dlTxQueues mac)(r := []),
         m_dlHarqManagers := map_erase r (m_dlHarqManagers mac),
         m_ulHarqManagers := map_erase r (m_ulHarqManagers mac)\<rparr>"


text \<open>
  The constructor: no UE, no PHY yet, and a round-robin scheduler by default.
  \<open>SetPhy\<close> attaches a PHY, \<open>SetScheduler\<close> replaces the scheduler.
\<close>

definition NbIotEnbMac_new :: NbIotEnbMac where
  "NbIotEnbMac_new =
     \<lparr>m_ueContexts = [], m_dlTxQueues = (\<lambda>r. []), m_dlHarqManagers = [],
      m_ulHarqManagers = [], m_phy = None,
      m_scheduler = Some (RoundRobin NbIotRoundRobinScheduler_new), m_nextRnti = 1\<rparr>"

definition SetPhy :: "NbIotEnbMac \<Rightarrow> NbIotEnbMac" where
  "SetPhy mac = mac\<lparr>m_phy := Some []\<rparr>"

definition SetScheduler :: "NbIotEnbMac \<Rightarrow> NbIotScheduler \<Rightarrow> NbIotEnbMac" where
  "SetScheduler mac scheduler = mac\<lparr>m_scheduler := Some scheduler\<rparr>"

text \<open>
  \<open>ReceivePdu(rnti, packet)\<close> stamps the context with the current time and walks the
  map that \<open>NbIotMacPdu::Deserialize\<close> returns for the packet, which is the parameter
  \<open>sdus\<close> here: the packets found under each LCID, in ascending LCID order. LCID 29 is
  the short and LCID 30 the long buffer status report; for such an entry that holds a
  packet it calls \<open>ProcessBsr\<close>. Every other entry is only logged.
\<close>

definition ReceivePdu ::
  "NbIotEnbMac \<Rightarrow> Time \<Rightarrow> u16 \<Rightarrow> (u8 \<times> Packet list) list \<Rightarrow> NbIotEnbMac" where
  "ReceivePdu mac now r sdus =
     foldl (\<lambda>mac (lcid, packets).
              if (lcid = 29 \<or> lcid = 30) \<and> packets \<noteq> [] then ProcessBsr mac r else mac)
           (mac\<lparr>m_ueContexts := map_modify r (\<lambda>c. c\<lparr>lastActivity := now\<rparr>) (m_ueContexts mac)\<rparr>)
           sdus"

text \<open>
  \<open>ProcessHarqFeedback\<close> passes an ACK or a NACK to the endpoint's downlink HARQ
  manager, if it has one; the answer of \<open>ProcessNack\<close> is dropped.
\<close>

definition ProcessHarqFeedback :: "NbIotEnbMac \<Rightarrow> u16 \<Rightarrow> u8 \<Rightarrow> bool \<Rightarrow> fault + NbIotEnbMac" where
  "ProcessHarqFeedback mac r harqId ack =
     (case map_of (m_dlHarqManagers mac) r of
        None \<Rightarrow> Inr mac
      | Some mgr \<Rightarrow>
          (case (if ack then ProcessAck mgr harqId
                 else map_sum id snd (ProcessNack mgr harqId)) of
             Inl f \<Rightarrow> Inl f
           | Inr mgr' \<Rightarrow>
               Inr (mac\<lparr>m_dlHarqManagers := map_modify r (\<lambda>_. mgr') (m_dlHarqManagers mac)\<rparr>)))"

text \<open>
  \<open>AllocateRnti\<close> hands out \<open>m_nextRnti\<close> and increments it, going back to 1 before
  the reserved values. \<open>GenerateRar\<close> (what \<open>ProcessReceivedPreamble\<close> schedules)
  allocates an RNTI, adds a context for it with \<open>AddUe\<close> and sends the 10-byte random
  access response through the PHY, if there is one.
\<close>

definition AllocateRnti :: "NbIotEnbMac \<Rightarrow> u16 \<times> NbIotEnbMac" where
  "AllocateRnti mac =
     (m_nextRnti mac,
      mac\<lparr>m_nextRnti := (if 0xFFF0 \<le> m_nextRnti mac + 1 then 1 else m_nextRnti mac + 1)\<rparr>)"

definition GenerateRar :: "NbIotEnbMac \<Rightarrow> NbIotCoverageClass \<Rightarrow> NbIotEnbMac" where
  "GenerateRar mac cc =
     (case AllocateRnti mac of
        (tempCRnti, mac1) \<Rightarrow>
          (let mac2 = AddUe mac1 tempCRnti cc;
               reps = NPDSCH_REPETITIONS !
                        min (cc_index cc * 2) (length NPDSCH_REPETITIONS - 1)
           in mac2\<lparr>m_phy := (case m_phy mac2 of
                                None \<Rightarrow> None
                              | Some calls \<Rightarrow> Some (calls @ [TransmitNpdsch_Rar 10 1 16 reps]))\<rparr>))"

subsection \<open>Round-robin scheduler (nbiot-enb-mac.cc)\<close>

text \<open>
  The SDU collection loop of \<open>ScheduleDl\<close>: whole SDUs are popped from the front of the
  queue while more than 3 bytes remain and the SDU with its 2-byte subheader fits. It
  returns the SDUs taken and the queue left. The comparison is done in \<open>int\<close>, so it
  cannot wrap.
\<close>

fun collect_sdus :: "(u8 \<times> Packet) list \<Rightarrow> u16 \<Rightarrow> Packet list \<times> (u8 \<times> Packet) list" where
  "collect_sdus [] remaining = ([], [])"
| "collect_sdus ((lcid, p) # q) remaining =
     (if 3 < remaining \<and> unat (ucast (GetSize p) :: u16) + 2 \<le> unat remaining
      then (case collect_sdus q (remaining - ((ucast (GetSize p) :: u16) + 2)) of
              (sdus, q') \<Rightarrow> (p # sdus, q'))
      else ([], (lcid, p) # q))"

text \<open>The condition under which \<open>GetNextRnti\<close> and the uplink loops pick a context.\<close>

definition ul_pending :: "NbIotUeContext \<Rightarrow> bool" where
  "ul_pending c \<longleftrightarrow> srReceived c \<or> 0 < totalBufferSize c"

text \<open>
  \<open>GetNextRnti\<close>: from \<open>upper_bound(lastRnti)\<close> (or \<open>begin()\<close> if that is the end) once
  around the map; the first connected entry with data, or 0.
\<close>

definition GetNextRnti :: "NbIotEnbMac option \<Rightarrow> u16 \<Rightarrow> bool \<Rightarrow> u16" where
  "GetNextRnti m_mac lastRnti dl =
     (case m_mac of
        None \<Rightarrow> 0
      | Some mac \<Rightarrow>
          (let ueContexts = m_ueContexts mac
           in if ueContexts = [] then 0
              else
                (let upper = dropWhile (\<lambda>(k, c). k \<le> lastRnti) ueContexts;
                     lower = takeWhile (\<lambda>(k, c). k \<le> lastRnti) ueContexts
                 in case find (\<lambda>(k, c). connected c \<and>
                                 (if dl then m_dlTxQueues mac k \<noteq> [] else ul_pending c))
                              (upper @ lower) of
                      None \<Rightarrow> 0
                    | Some (k, c) \<Rightarrow> k)))"

definition RR_ScheduleDl ::
  "NbIotRoundRobinScheduler \<Rightarrow> NbIotEnbMac option \<Rightarrow> u8 \<Rightarrow>
     NbIotDlAssignmentResult list \<times> NbIotRoundRobinScheduler \<times> NbIotEnbMac option" where
  "RR_ScheduleDl s m_mac availableRbs =
     (case m_mac of
        None \<Rightarrow> ([], s, m_mac)
      | Some mac \<Rightarrow>
          if availableRbs = 0 then ([], s, m_mac)
          else if m_ueContexts mac = [] then ([], s, m_mac)
          else
            (let r = GetNextRnti m_mac (m_lastDlRnti s) True
             in if r = 0 then ([], s, m_mac)
                else if m_dlTxQueues mac r = [] then ([], s, m_mac)
                else
                  (case GetUeContext m_mac r of
                     None \<Rightarrow> ([], s, m_mac)
                   | Some ueContext \<Rightarrow>
                       (let mcs = min (cqi ueContext) 10;
                            reps = NPDSCH_REPETITIONS !
                                     min (cc_index (coverageClass ueContext) * 2)
                                         (length NPDSCH_REPETITIONS - 1);
                            tbSize = GetTbsFromMcsAndRbs mcs 1
                        in case collect_sdus (m_dlTxQueues mac r) tbSize of
                             (sdus, q') \<Rightarrow>
                               (let mac' = mac\<lparr>m_dlTxQueues := (m_dlTxQueues mac)(r := q')\<rparr>;
                                    assignment =
                                      \<lparr>dl_rnti = r, dl_mcs = mcs, dl_tbSize = tbSize,
                                       dl_numSubframes = 1, dl_repetitions = reps, dl_rv = 0,
                                       dl_newData = True, dl_harqProcess = 0, dl_sdus = sdus\<rparr>
                                in if sdus \<noteq> [] then ([assignment], s\<lparr>m_lastDlRnti := r\<rparr>, Some mac')
                                   else ([], s, Some mac'))))))"

text \<open>
  The loop of \<open>ScheduleUl\<close> over the whole map from \<open>begin()\<close>: the first connected
  entry with a pending request or backlog gets the grant and has its request flag
  cleared; the loop then breaks.
\<close>

fun rr_ul_loop ::
  "(u16 \<times> NbIotUeContext) list \<Rightarrow> NbIotUlGrantResult option \<times> (u16 \<times> NbIotUeContext) list" where
  "rr_ul_loop [] = (None, [])"
| "rr_ul_loop ((r, context) # rest) =
     (if \<not> connected context then
        (case rr_ul_loop rest of (g, rest') \<Rightarrow> (g, (r, context) # rest'))
      else if srReceived context \<or> 0 < totalBufferSize context then
        (let mcs = min (cqi context div 2) 7;
             reps = NPUSCH_FORMAT1_REPETITIONS !
                      min (cc_index (coverageClass context))
                          (length NPUSCH_FORMAT1_REPETITIONS - 1);
             tbSize = GetTbsFromMcsAndRbs mcs 1
         in (Some \<lparr>ul_rnti = r, ul_mcs = mcs, ul_tbSize = tbSize, ul_numSubcarriers = 12,
                   ul_numSlots = 2, ul_repetitions = reps, ul_rv = 0, ul_newData = True,
                   ul_harqProcess = 0\<rparr>,
             (r, context\<lparr>srReceived := False\<rparr>) # rest))
      else (case rr_ul_loop rest of (g, rest') \<Rightarrow> (g, (r, context) # rest')))"

definition RR_ScheduleUl ::
  "NbIotRoundRobinScheduler \<Rightarrow> NbIotEnbMac option \<Rightarrow> u8 \<Rightarrow>
     NbIotUlGrantResult list \<times> NbIotRoundRobinScheduler \<times> NbIotEnbMac option" where
  "RR_ScheduleUl s m_mac availableRbs =
     (case m_mac of
        None \<Rightarrow> ([], s, m_mac)
      | Some mac \<Rightarrow>
          if availableRbs = 0 then ([], s, m_mac)
          else if m_ueContexts mac = [] then ([], s, m_mac)
          else
            (case rr_ul_loop (m_ueContexts mac) of
               (None, ctxs') \<Rightarrow> ([], s, Some (mac\<lparr>m_ueContexts := ctxs'\<rparr>))
             | (Some grant, ctxs') \<Rightarrow>
                 ([grant], s\<lparr>m_lastUlRnti := ul_rnti grant\<rparr>, Some (mac\<lparr>m_ueContexts := ctxs'\<rparr>))))"

subsection \<open>Coverage-class scheduler (nbiot-enb-mac.cc)\<close>

fun GetPriority :: "NbIotCoverageClass \<Rightarrow> u8" where
  "GetPriority CE_LEVEL_0 = 3"
| "GetPriority CE_LEVEL_1 = 2"
| "GetPriority CE_LEVEL_2 = 1"

text \<open>
  \<open>SortByPriority\<close> pairs every RNTI that has a context with its priority and calls
  \<open>std::sort\<close> with the comparator \<open>a.second < b.second\<close>. \<open>std::sort\<close> is the C++
  library's, not this module's: it is the parameter \<open>srt\<close> here, and
  \<open>std_sort_contract\<close> is what the C++ standard promises of it: the result is a
  permutation of the input in which no element has a smaller priority than one before
  it. The standard does not promise that equal elements keep their order
  (that is \<open>std::stable_sort\<close>).
\<close>

type_synonym priority_sort = "(u16 \<times> u8) list \<Rightarrow> (u16 \<times> u8) list"

definition std_sort_contract :: "priority_sort \<Rightarrow> bool" where
  "std_sort_contract srt \<longleftrightarrow>
     (\<forall>xs. mset (srt xs) = mset xs \<and> sorted_wrt (\<lambda>a b. \<not> snd b < snd a) (srt xs))"

definition SortByPriority :: "priority_sort \<Rightarrow> NbIotEnbMac option \<Rightarrow> u16 list \<Rightarrow> u16 list" where
  "SortByPriority srt m_mac ueList =
     map fst (srt (List.map_filter
        (\<lambda>r. case GetUeContext m_mac r of
               None \<Rightarrow> None
             | Some context \<Rightarrow> Some (r, GetPriority (coverageClass context))) ueList))"

definition CC_ScheduleDl ::
  "priority_sort \<Rightarrow> NbIotEnbMac option \<Rightarrow> u8 \<Rightarrow>
     fault + (NbIotDlAssignmentResult list \<times> NbIotEnbMac option)" where
  "CC_ScheduleDl srt m_mac availableRbs =
     (case m_mac of
        None \<Rightarrow> Inr ([], m_mac)
      | Some mac \<Rightarrow>
          if availableRbs = 0 then Inr ([], m_mac)
          else
            (let candidateRntis = map fst (filter
                   (\<lambda>(r, context). connected context \<and> m_dlTxQueues mac r \<noteq> [])
                   (m_ueContexts mac))
             in if candidateRntis = [] then Inr ([], m_mac)
                else
                  (case SortByPriority srt m_mac candidateRntis of
                     [] \<Rightarrow> Inl OutOfBounds
                   | r # _ \<Rightarrow>
                       (case GetUeContext m_mac r of
                          None \<Rightarrow> Inl NullPointer
                        | Some ueContext \<Rightarrow>
                            (let mcs = min (cqi ueContext) 10;
                                 reps = NPDSCH_REPETITIONS !
                                          min (cc_index (coverageClass ueContext) * 3)
                                              (length NPDSCH_REPETITIONS - 1);
                                 tbSize = GetTbsFromMcsAndRbs mcs 1
                             in case collect_sdus (m_dlTxQueues mac r) tbSize of
                                  (sdus, q') \<Rightarrow>
                                    (let mac' = mac\<lparr>m_dlTxQueues := (m_dlTxQueues mac)(r := q')\<rparr>;
                                         assignment =
                                           \<lparr>dl_rnti = r, dl_mcs = mcs, dl_tbSize = tbSize,
                                            dl_numSubframes = 1, dl_repetitions = reps,
                                            dl_rv = 0, dl_newData = True, dl_harqProcess = 0,
                                            dl_sdus = sdus\<rparr>
                                     in if sdus \<noteq> [] then Inr ([assignment], Some mac')
                                        else Inr ([], Some mac')))))))"

definition CC_ScheduleUl ::
  "priority_sort \<Rightarrow> NbIotEnbMac option \<Rightarrow> u8 \<Rightarrow>
     fault + (NbIotUlGrantResult list \<times> NbIotEnbMac option)" where
  "CC_ScheduleUl srt m_mac availableRbs =
     (case m_mac of
        None \<Rightarrow> Inr ([], m_mac)
      | Some mac \<Rightarrow>
          if availableRbs = 0 then Inr ([], m_mac)
          else
            (let candidateRntis = map fst (filter
                   (\<lambda>(r, context). connected context \<and>
                      (srReceived context \<or> 0 < totalBufferSize context))
                   (m_ueContexts mac))
             in if candidateRntis = [] then Inr ([], m_mac)
                else
                  (case SortByPriority srt m_mac candidateRntis of
                     [] \<Rightarrow> Inl OutOfBounds
                   | r # _ \<Rightarrow>
                       (case GetUeContext m_mac r of
                          None \<Rightarrow> Inl NullPointer
                        | Some ueContext \<Rightarrow>
                            (let mcs = min (cqi ueContext div 2) 7;
                                 reps = NPUSCH_FORMAT1_REPETITIONS !
                                          min (cc_index (coverageClass ueContext) * 2)
                                              (length NPUSCH_FORMAT1_REPETITIONS - 1);
                                 tbSize = GetTbsFromMcsAndRbs mcs 1;
                                 grant =
                                   \<lparr>ul_rnti = r, ul_mcs = mcs, ul_tbSize = tbSize,
                                    ul_numSubcarriers = 12, ul_numSlots = 2,
                                    ul_repetitions = reps, ul_rv = 0, ul_newData = True,
                                    ul_harqProcess = 0\<rparr>
                             in Inr ([grant],
                                     Some (mac\<lparr>m_ueContexts := map_modify r
                                        (\<lambda>c. c\<lparr>srReceived := False\<rparr>) (m_ueContexts mac)\<rparr>)))))))"


subsection \<open>Semi-persistent scheduler (nbiot-sps-scheduler.cc)\<close>

text \<open>
  \<open>SelectMcsAndTbs\<close> returns its two output parameters. The product
  \<open>tbSize * numSubcarriers\<close> is computed in \<open>int\<close> and stored back into a
  \<open>uint16_t\<close>.
\<close>

definition SelectMcsAndTbs :: "u8 \<Rightarrow> u8 \<Rightarrow> u8 \<times> u16" where
  "SelectMcsAndTbs q numSubcarriers =
     (let (mcs, tbSize) =
            (if q \<le> 3 then (0, 16)
             else if q \<le> 5 then (2, 56)
             else if q \<le> 8 then (4, 88)
             else if q \<le> 11 then (6, 152)
             else (8 :: u8, 256 :: u16))
      in if numSubcarriers < 12 then
           (let tbSize' = (word_of_nat (unat tbSize * unat numSubcarriers div 12) :: u16)
            in (mcs, if tbSize' < 16 then 16 else tbSize'))
         else (mcs, tbSize))"

text \<open>\<open>Simulator::Now()\<close> is the parameter \<open>now\<close> of every function that reads the clock.\<close>

definition ConfigureSps :: "NbIotSpsScheduler \<Rightarrow> Time \<Rightarrow> u16 \<Rightarrow> Time \<Rightarrow> u8 \<Rightarrow> NbIotSpsScheduler" where
  "ConfigureSps s now r interval numSubcarriers =
     (let (mcs, tbSize) = SelectMcsAndTbs 7 numSubcarriers;
          config = NbIotSpsConfig_new\<lparr>sps_rnti := r, spsInterval := interval,
                     sps_numSubcarriers := numSubcarriers, nextAllocation := now,
                     active := False, sps_mcs := mcs, sps_tbSize := tbSize\<rparr>
      in s\<lparr>m_spsConfigs := map_assign r config (m_spsConfigs s)\<rparr>)"

definition ActivateSps :: "NbIotSpsScheduler \<Rightarrow> Time \<Rightarrow> u16 \<Rightarrow> NbIotSpsScheduler" where
  "ActivateSps s now r =
     (let s1 = (if map_of (m_spsConfigs s) r = None
                then ConfigureSps s now r (m_defaultSpsInterval s) 12 else s)
      in s1\<lparr>m_spsConfigs := map_modify r
               (\<lambda>c. c\<lparr>active := True, nextAllocation := now\<rparr>) (m_spsConfigs s1)\<rparr>)"

definition DeactivateSps :: "NbIotSpsScheduler \<Rightarrow> u16 \<Rightarrow> NbIotSpsScheduler" where
  "DeactivateSps s r =
     s\<lparr>m_spsConfigs := map_modify r (\<lambda>c. c\<lparr>active := False\<rparr>) (m_spsConfigs s)\<rparr>"

definition IsSpsActive :: "NbIotSpsScheduler \<Rightarrow> u16 \<Rightarrow> bool" where
  "IsSpsActive s r = (case map_of (m_spsConfigs s) r of None \<Rightarrow> False | Some c \<Rightarrow> active c)"

definition GetSpsConfig :: "NbIotSpsScheduler \<Rightarrow> u16 \<Rightarrow> NbIotSpsConfig option" where
  "GetSpsConfig s r = map_of (m_spsConfigs s) r"

definition UpdateNextAllocation :: "NbIotSpsScheduler \<Rightarrow> Time \<Rightarrow> u16 \<Rightarrow> NbIotSpsScheduler" where
  "UpdateNextAllocation s now r =
     s\<lparr>m_spsConfigs := map_modify r
          (\<lambda>c. c\<lparr>nextAllocation := now + spsInterval c\<rparr>) (m_spsConfigs s)\<rparr>"

text \<open>
  The loop of \<open>ScheduleSpsGrants\<close> walks the positions of \<open>m_spsConfigs\<close>; the body
  reads the entry at the current position. For an active entry whose allocation time has
  come it emits \<open>sps_grant\<close> and then does \<open>sps_account\<close>: it counts a data or a
  padding transmission and calls \<open>UpdateNextAllocation\<close>, which writes to the entry that
  \<open>find(config.rnti)\<close> returns. \<open>Simulator::Now()\<close> inside \<open>UpdateNextAllocation\<close>
  is the \<open>currentTime\<close> that \<open>ScheduleUl\<close> read in the same event.
\<close>

definition sps_grant :: "NbIotSpsConfig \<Rightarrow> NbIotUlGrantResult" where
  "sps_grant config =
     \<lparr>ul_rnti = sps_rnti config, ul_mcs = sps_mcs config, ul_tbSize = sps_tbSize config,
      ul_numSubcarriers = sps_numSubcarriers config, ul_numSlots = 4,
      ul_repetitions = sps_repetitions config, ul_rv = 0, ul_newData = True,
      ul_harqProcess = sps_harqProcess config\<rparr>"

definition sps_account ::
  "Time \<Rightarrow> NbIotEnbMac option \<Rightarrow> NbIotSpsScheduler \<Rightarrow> NbIotSpsConfig \<Rightarrow> NbIotSpsScheduler" where
  "sps_account currentTime m_mac s config =
     (let hasData = (case GetUeContext m_mac (sps_rnti config) of
                       None \<Rightarrow> False
                     | Some ueContext \<Rightarrow> 0 < totalBufferSize ueContext);
          s1 = (if hasData then s\<lparr>m_dataTransmissions := m_dataTransmissions s + 1\<rparr>
                else s\<lparr>m_paddingTransmissions := m_paddingTransmissions s + 1\<rparr>)
      in UpdateNextAllocation s1 currentTime (sps_rnti config))"

fun sps_grants_loop ::
  "Time \<Rightarrow> u8 \<Rightarrow> NbIotEnbMac option \<Rightarrow> nat list \<Rightarrow> u8 \<Rightarrow> NbIotSpsScheduler \<Rightarrow>
     NbIotUlGrantResult list \<times> NbIotSpsScheduler" where
  "sps_grants_loop currentTime availableRbs m_mac [] usedRbs s = ([], s)"
| "sps_grants_loop currentTime availableRbs m_mac (i # rest) usedRbs s =
     (if availableRbs \<le> usedRbs then ([], s)
      else
        (let config = snd (m_spsConfigs s ! i)
         in if \<not> active config then
              sps_grants_loop currentTime availableRbs m_mac rest usedRbs s
            else if nextAllocation config \<le> currentTime then
              (case sps_grants_loop currentTime availableRbs m_mac rest (usedRbs + 1)
                      (sps_account currentTime m_mac s config) of
                 (grants, s') \<Rightarrow> (sps_grant config # grants, s'))
            else sps_grants_loop currentTime availableRbs m_mac rest usedRbs s))"

text \<open>
  What \<open>ConfigureSps\<close>, \<open>ActivateSps\<close> and \<open>DeactivateSps\<close> keep true of
  \<open>m_spsConfigs\<close>: it is a \<open>std::map\<close> and every configuration is stored under its own
  RNTI.
\<close>

definition sps_configs_wf :: "(u16 \<times> NbIotSpsConfig) list \<Rightarrow> bool" where
  "sps_configs_wf cfgs \<longleftrightarrow> map_sorted cfgs \<and> list_all (\<lambda>(k, c). sps_rnti c = k) cfgs"

definition ScheduleSpsGrants ::
  "NbIotSpsScheduler \<Rightarrow> NbIotEnbMac option \<Rightarrow> Time \<Rightarrow> u8 \<Rightarrow>
     NbIotUlGrantResult list \<times> NbIotSpsScheduler" where
  "ScheduleSpsGrants s m_mac currentTime availableRbs =
     sps_grants_loop currentTime availableRbs m_mac [0..<length (m_spsConfigs s)] 0 s"

text \<open>The second loop of \<open>ScheduleDynamicGrants\<close>, over the RNTIs collected by the first.\<close>

fun dynamic_grants_loop ::
  "u8 \<Rightarrow> u16 list \<Rightarrow> u8 \<Rightarrow> NbIotEnbMac \<Rightarrow> NbIotUlGrantResult list \<times> NbIotEnbMac" where
  "dynamic_grants_loop availableRbs [] usedRbs mac = ([], mac)"
| "dynamic_grants_loop availableRbs (r # rest) usedRbs mac =
     (if availableRbs \<le> usedRbs then ([], mac)
      else
        (case map_of (m_ueContexts mac) r of
           None \<Rightarrow> dynamic_grants_loop availableRbs rest usedRbs mac
         | Some ueContext \<Rightarrow>
             (let (mcs, tbSize) = SelectMcsAndTbs (cqi ueContext) 12;
                  grant =
                    \<lparr>ul_rnti = r, ul_mcs = mcs, ul_tbSize = tbSize, ul_numSubcarriers = 12,
                     ul_numSlots = 4, ul_repetitions = 1, ul_rv = 0, ul_newData = True,
                     ul_harqProcess = 0\<rparr>;
                  mac' = mac\<lparr>m_ueContexts := map_modify r
                            (\<lambda>c. c\<lparr>srReceived := False\<rparr>) (m_ueContexts mac)\<rparr>
              in case dynamic_grants_loop availableRbs rest (usedRbs + 1) mac' of
                   (grants, mac'') \<Rightarrow> (grant # grants, mac''))))"

definition ScheduleDynamicGrants ::
  "NbIotSpsScheduler \<Rightarrow> NbIotEnbMac option \<Rightarrow> u8 \<Rightarrow>
     NbIotUlGrantResult list \<times> NbIotEnbMac option" where
  "ScheduleDynamicGrants s m_mac availableRbs =
     (case m_mac of
        None \<Rightarrow> ([], m_mac)
      | Some mac \<Rightarrow>
          if availableRbs = 0 then ([], m_mac)
          else
            (let dynamicUes = map fst (filter
                   (\<lambda>(r, context). \<not> IsSpsActive s r \<and>
                      (srReceived context \<or> 0 < totalBufferSize context))
                   (m_ueContexts mac))
             in case dynamic_grants_loop availableRbs dynamicUes 0 mac of
                  (grants, mac') \<Rightarrow> (grants, Some mac')))"

definition SPS_ScheduleUl ::
  "NbIotSpsScheduler \<Rightarrow> NbIotEnbMac option \<Rightarrow> Time \<Rightarrow> u8 \<Rightarrow>
     NbIotUlGrantResult list \<times> NbIotSpsScheduler \<times> NbIotEnbMac option" where
  "SPS_ScheduleUl s m_mac now availableRbs =
     (let s0 = s\<lparr>m_subframeCounter := m_subframeCounter s + 1\<rparr>
      in case ScheduleSpsGrants s0 m_mac now availableRbs of
           (spsGrants, s1) \<Rightarrow>
             (let remainingRbs =
                    fold (\<lambda>grant remainingRbs. if 0 < remainingRbs then remainingRbs - 1 else 0)
                         spsGrants availableRbs
              in case ScheduleDynamicGrants s1 m_mac remainingRbs of
                   (dynamicGrants, m_mac') \<Rightarrow> (spsGrants @ dynamicGrants, s1, m_mac')))"

text \<open>The loop of the SPS \<open>ScheduleDl\<close> over the keys of the context map.\<close>

fun sps_dl_loop ::
  "u8 \<Rightarrow> u16 list \<Rightarrow> u8 \<Rightarrow> NbIotEnbMac \<Rightarrow> NbIotDlAssignmentResult list \<times> NbIotEnbMac" where
  "sps_dl_loop availableRbs [] usedRbs mac = ([], mac)"
| "sps_dl_loop availableRbs (r # rest) usedRbs mac =
     (if availableRbs \<le> usedRbs then ([], mac)
      else if m_dlTxQueues mac r \<noteq> [] then
        (let txQueue = m_dlTxQueues mac r;
             result =
               \<lparr>dl_rnti = r, dl_mcs = 4, dl_tbSize = 88, dl_numSubframes = 1,
                dl_repetitions = 1, dl_rv = 0, dl_newData = True, dl_harqProcess = 0,
                dl_sdus = map snd (take 8 txQueue)\<rparr>;
             mac' = mac\<lparr>m_dlTxQueues := (m_dlTxQueues mac)(r := drop 8 txQueue)\<rparr>
         in case sps_dl_loop availableRbs rest (usedRbs + 1) mac' of
              (assignments, mac'') \<Rightarrow> (result # assignments, mac''))
      else sps_dl_loop availableRbs rest usedRbs mac)"

definition SPS_ScheduleDl ::
  "NbIotEnbMac option \<Rightarrow> u8 \<Rightarrow> NbIotDlAssignmentResult list \<times> NbIotEnbMac option" where
  "SPS_ScheduleDl m_mac availableRbs =
     (case m_mac of
        None \<Rightarrow> ([], m_mac)
      | Some mac \<Rightarrow>
          (case sps_dl_loop availableRbs (map fst (m_ueContexts mac)) 0 mac of
             (assignments, mac') \<Rightarrow> (assignments, Some mac')))"

subsection \<open>The scheduler interface and the subframe tick (nbiot-enb-mac.cc)\<close>

text \<open>The virtual calls \<open>m_scheduler->ScheduleDl\<close> and \<open>m_scheduler->ScheduleUl\<close>.\<close>

definition ScheduleDl ::
  "priority_sort \<Rightarrow> NbIotScheduler \<Rightarrow> NbIotEnbMac option \<Rightarrow> u8 \<Rightarrow>
     fault + (NbIotDlAssignmentResult list \<times> NbIotScheduler \<times> NbIotEnbMac option)" where
  "ScheduleDl srt sch m_mac availableRbs =
     (case sch of
        RoundRobin s \<Rightarrow>
          (case RR_ScheduleDl s m_mac availableRbs of
             (as, s', m') \<Rightarrow> Inr (as, RoundRobin s', m'))
      | CoverageClass \<Rightarrow>
          (case CC_ScheduleDl srt m_mac availableRbs of
             Inl f \<Rightarrow> Inl f
           | Inr (as, m') \<Rightarrow> Inr (as, CoverageClass, m'))
      | Sps s \<Rightarrow>
          (case SPS_ScheduleDl m_mac availableRbs of
             (as, m') \<Rightarrow> Inr (as, Sps s, m')))"

definition ScheduleUl ::
  "priority_sort \<Rightarrow> NbIotScheduler \<Rightarrow> NbIotEnbMac option \<Rightarrow> Time \<Rightarrow> u8 \<Rightarrow>
     fault + (NbIotUlGrantResult list \<times> NbIotScheduler \<times> NbIotEnbMac option)" where
  "ScheduleUl srt sch m_mac now availableRbs =
     (case sch of
        RoundRobin s \<Rightarrow>
          (case RR_ScheduleUl s m_mac availableRbs of
             (gs, s', m') \<Rightarrow> Inr (gs, RoundRobin s', m'))
      | CoverageClass \<Rightarrow>
          (case CC_ScheduleUl srt m_mac availableRbs of
             Inl f \<Rightarrow> Inl f
           | Inr (gs, m') \<Rightarrow> Inr (gs, CoverageClass, m'))
      | Sps s \<Rightarrow>
          (case SPS_ScheduleUl s m_mac now availableRbs of
             (gs, s', m') \<Rightarrow> Inr (gs, Sps s', m')))"

text \<open>
  \<open>TransmitDlPdus\<close>, one assignment: build the PDU (every SDU under LCID 1, then
  padding to the block size), store it in the HARQ process the assignment names, and
  hand PDU and DCI to the PHY if there is one.
\<close>

definition build_pdu :: "NbIotDlAssignmentResult \<Rightarrow> NbIotMacPdu" where
  "build_pdu assignment =
     AddPadding (foldl (\<lambda>pdu sdu. AddSdu pdu 1 sdu) NbIotMacPdu_new (dl_sdus assignment))
                (dl_tbSize assignment)"

definition transmit_dl_pdu :: "NbIotEnbMac \<Rightarrow> NbIotDlAssignmentResult \<Rightarrow> fault + NbIotEnbMac" where
  "transmit_dl_pdu mac assignment =
     (let macPdu = build_pdu assignment;
          stored =
            (case map_of (m_dlHarqManagers mac) (dl_rnti assignment) of
               None \<Rightarrow> Inr (m_dlHarqManagers mac)
             | Some mgr \<Rightarrow>
                 if dl_harqProcess assignment < m_numProcesses mgr then
                   (if unat (dl_harqProcess assignment) < length (m_processes mgr) then
                      Inr (map_modify (dl_rnti assignment)
                        (\<lambda>mgr. mgr\<lparr>m_processes := (m_processes mgr)
                           [unat (dl_harqProcess assignment) :=
                              (m_processes mgr ! unat (dl_harqProcess assignment))
                                \<lparr>m_packet := Some macPdu, m_tbs := dl_tbSize assignment,
                                 m_active := True\<rparr>]\<rparr>)
                        (m_dlHarqManagers mac))
                    else Inl OutOfBounds)
                 else Inr (m_dlHarqManagers mac))
      in case stored of
           Inl f \<Rightarrow> Inl f
         | Inr managers \<Rightarrow>
             Inr (mac\<lparr>m_dlHarqManagers := managers,
                      m_phy := (case m_phy mac of
                                  None \<Rightarrow> None
                                | Some calls \<Rightarrow>
                                    Some (calls @
                                      [TransmitNpdsch macPdu (dl_rnti assignment)
                                         (dl_mcs assignment) (dl_repetitions assignment),
                                       TransmitNpdcch_N1 (dl_rnti assignment)
                                         (dl_mcs assignment) (dl_repetitions assignment)
                                         (dl_newData assignment) (dl_harqProcess assignment)]))\<rparr>))"

fun TransmitDlPdus :: "NbIotEnbMac \<Rightarrow> NbIotDlAssignmentResult list \<Rightarrow> fault + NbIotEnbMac" where
  "TransmitDlPdus mac [] = Inr mac"
| "TransmitDlPdus mac (assignment # rest) =
     (case transmit_dl_pdu mac assignment of
        Inl f \<Rightarrow> Inl f
      | Inr mac' \<Rightarrow> TransmitDlPdus mac' rest)"

definition SendUlGrants :: "NbIotEnbMac \<Rightarrow> NbIotUlGrantResult list \<Rightarrow> NbIotEnbMac" where
  "SendUlGrants mac grants =
     mac\<lparr>m_phy := (case m_phy mac of
                     None \<Rightarrow> None
                   | Some calls \<Rightarrow>
                       Some (calls @ map (\<lambda>grant. TransmitNpdcch_N0 (ul_rnti grant)
                               (ul_mcs grant) (ul_repetitions grant) (ul_newData grant)
                               (ul_harqProcess grant)) grants))\<rparr>"

text \<open>
  \<open>DoSchedule\<close>, split at its two halves. The scheduler's \<open>m_mac\<close> is this MAC
  (\<open>SetScheduler\<close> and the constructor set it), and the scheduler hands the MAC back
  with the queues and contexts it changed.
\<close>

definition mac_of :: "NbIotEnbMac \<Rightarrow> NbIotEnbMac option \<Rightarrow> NbIotEnbMac" where
  "mac_of mac m_mac = (case m_mac of None \<Rightarrow> mac | Some mac' \<Rightarrow> mac')"

definition DoScheduleDl :: "priority_sort \<Rightarrow> NbIotEnbMac \<Rightarrow> fault + NbIotEnbMac" where
  "DoScheduleDl srt mac =
     (case m_scheduler mac of
        None \<Rightarrow> Inr mac
      | Some sch \<Rightarrow>
          (case ScheduleDl srt sch (Some mac) 1 of
             Inl f \<Rightarrow> Inl f
           | Inr (dlAssignments, sch', m_mac') \<Rightarrow>
               (let mac1 = (mac_of mac m_mac')\<lparr>m_scheduler := Some sch'\<rparr>
                in if dlAssignments \<noteq> [] then TransmitDlPdus mac1 dlAssignments
                   else Inr mac1)))"

definition DoScheduleUl :: "priority_sort \<Rightarrow> NbIotEnbMac \<Rightarrow> Time \<Rightarrow> fault + NbIotEnbMac" where
  "DoScheduleUl srt mac now =
     (case m_scheduler mac of
        None \<Rightarrow> Inr mac
      | Some sch \<Rightarrow>
          (case ScheduleUl srt sch (Some mac) now 1 of
             Inl f \<Rightarrow> Inl f
           | Inr (ulGrants, sch', m_mac') \<Rightarrow>
               (let mac1 = (mac_of mac m_mac')\<lparr>m_scheduler := Some sch'\<rparr>
                in if ulGrants \<noteq> [] then Inr (SendUlGrants mac1 ulGrants)
                   else Inr mac1)))"

definition DoSchedule :: "priority_sort \<Rightarrow> NbIotEnbMac \<Rightarrow> Time \<Rightarrow> fault + NbIotEnbMac" where
  "DoSchedule srt mac now =
     (case DoScheduleDl srt mac of
        Inl f \<Rightarrow> Inl f
      | Inr mac' \<Rightarrow> DoScheduleUl srt mac' now)"

subsection \<open>The calls a MAC receives\<close>

text \<open>
  The calls that the PHY, the RRC and the simulation scripts make on an eNB MAC and on
  the scheduler it holds, and what each does to the MAC. \<open>now\<close> is \<open>Simulator::Now()\<close>
  at the call. The three SPS calls are members of \<open>NbIotSpsScheduler\<close> only.
\<close>

datatype mac_call =
    Call_SetPhy
  | Call_SetScheduler NbIotScheduler
  | Call_ReceivePdu u16 "(u8 \<times> Packet list) list"
  | Call_TransmitSdu u16 u8 Packet
  | Call_GenerateRar NbIotCoverageClass
  | Call_ProcessHarqFeedback u16 u8 bool
  | Call_ProcessBsr u16
  | Call_ProcessSchedulingRequest u16
  | Call_AllocateRnti
  | Call_AddUe u16 NbIotCoverageClass
  | Call_RemoveUe u16
  | Call_SubframeIndication
  | Call_ConfigureSps u16 Time u8
  | Call_ActivateSps u16
  | Call_DeactivateSps u16

definition on_sps :: "(NbIotSpsScheduler \<Rightarrow> NbIotSpsScheduler) \<Rightarrow> NbIotEnbMac \<Rightarrow> NbIotEnbMac" where
  "on_sps f mac =
     (case m_scheduler mac of
        Some (Sps s) \<Rightarrow> mac\<lparr>m_scheduler := Some (Sps (f s))\<rparr>
      | _ \<Rightarrow> mac)"

fun perform :: "priority_sort \<Rightarrow> Time \<Rightarrow> NbIotEnbMac \<Rightarrow> mac_call \<Rightarrow> fault + NbIotEnbMac" where
  "perform srt now mac Call_SetPhy = Inr (SetPhy mac)"
| "perform srt now mac (Call_SetScheduler scheduler) = Inr (SetScheduler mac scheduler)"
| "perform srt now mac (Call_ReceivePdu r sdus) = Inr (ReceivePdu mac now r sdus)"
| "perform srt now mac (Call_TransmitSdu r lcid packet) = Inr (TransmitSdu mac r lcid packet)"
| "perform srt now mac (Call_GenerateRar cc) = Inr (GenerateRar mac cc)"
| "perform srt now mac (Call_ProcessHarqFeedback r harqId ack) = ProcessHarqFeedback mac r harqId ack"
| "perform srt now mac (Call_ProcessBsr r) = Inr (ProcessBsr mac r)"
| "perform srt now mac (Call_ProcessSchedulingRequest r) = Inr (ProcessSchedulingRequest mac r)"
| "perform srt now mac Call_AllocateRnti = Inr (snd (AllocateRnti mac))"
| "perform srt now mac (Call_AddUe r cc) = Inr (AddUe mac r cc)"
| "perform srt now mac (Call_RemoveUe r) = Inr (RemoveUe mac r)"
| "perform srt now mac Call_SubframeIndication = DoSchedule srt mac now"
| "perform srt now mac (Call_ConfigureSps r interval numSubcarriers) =
     Inr (on_sps (\<lambda>s. ConfigureSps s now r interval numSubcarriers) mac)"
| "perform srt now mac (Call_ActivateSps r) = Inr (on_sps (\<lambda>s. ActivateSps s now r) mac)"
| "perform srt now mac (Call_DeactivateSps r) = Inr (on_sps (\<lambda>s. DeactivateSps s r) mac)"


subsection \<open>A stable sort\<close>

text \<open>
  An insertion sort by priority that does what the standard asks of \<open>std::sort\<close> and
  puts an element before the elements of equal priority that follow it in the input
  (it is stable).
\<close>

fun insert_before_equal :: "(u16 \<times> u8) \<Rightarrow> (u16 \<times> u8) list \<Rightarrow> (u16 \<times> u8) list" where
  "insert_before_equal x [] = [x]"
| "insert_before_equal x (y # ys) =
     (if snd x \<le> snd y then x # y # ys else y # insert_before_equal x ys)"

definition stable_priority_sort :: priority_sort where
  "stable_priority_sort xs = foldr insert_before_equal xs []"

subsection \<open>\<open>std::sort\<close> as GNU libstdc++ implements it\<close>

text \<open>
  The program gets \<open>std::sort\<close> from the C++ library it is built with. This is the
  introsort of GNU libstdc++ (\<open>bits/stl_algo.h\<close> and \<open>bits/stl_heap.h\<close>), function by
  function; \<open>cmp\<close> is the comparator, the vector is a list, and an iterator is a
  position in it. The unguarded loops have no bounds check: where one would step
  outside the vector the result is \<open>None\<close>.
\<close>

text \<open>\<open>__unguarded_linear_insert\<close>: the hole starts at the given position and moves down.\<close>

fun unguarded_linear_insert :: "('a \<Rightarrow> 'a \<Rightarrow> bool) \<Rightarrow> 'a \<Rightarrow> 'a list \<Rightarrow> nat \<Rightarrow> 'a list option" where
  "unguarded_linear_insert cmp val a 0 = None"
| "unguarded_linear_insert cmp val a (Suc next) =
     (if cmp val (a ! next)
      then unguarded_linear_insert cmp val (a[Suc next := a ! next]) next
      else Some (a[Suc next := val]))"

text \<open>
  \<open>__insertion_sort\<close>: an element smaller than the first one is moved to the front
  by shifting the whole prefix (\<open>move_backward\<close>), any other is inserted from the right.
\<close>

fun insertion_sort_loop :: "('a \<Rightarrow> 'a \<Rightarrow> bool) \<Rightarrow> nat \<Rightarrow> nat list \<Rightarrow> 'a list \<Rightarrow> 'a list option" where
  "insertion_sort_loop cmp first [] a = Some a"
| "insertion_sort_loop cmp first (i # rest) a =
     (if cmp (a ! i) (a ! first) then
        insertion_sort_loop cmp first rest
          (take first a @ (a ! i) # take (i - first) (drop first a) @ drop (Suc i) a)
      else
        (case unguarded_linear_insert cmp (a ! i) a i of
           None \<Rightarrow> None
         | Some a' \<Rightarrow> insertion_sort_loop cmp first rest a'))"

definition insertion_sort :: "('a \<Rightarrow> 'a \<Rightarrow> bool) \<Rightarrow> 'a list \<Rightarrow> nat \<Rightarrow> nat \<Rightarrow> 'a list option" where
  "insertion_sort cmp a first lst =
     (if first = lst then Some a else insertion_sort_loop cmp first [Suc first..<lst] a)"

fun unguarded_insertion_sort_loop :: "('a \<Rightarrow> 'a \<Rightarrow> bool) \<Rightarrow> nat list \<Rightarrow> 'a list \<Rightarrow> 'a list option" where
  "unguarded_insertion_sort_loop cmp [] a = Some a"
| "unguarded_insertion_sort_loop cmp (i # rest) a =
     (case unguarded_linear_insert cmp (a ! i) a i of
        None \<Rightarrow> None
      | Some a' \<Rightarrow> unguarded_insertion_sort_loop cmp rest a')"

definition unguarded_insertion_sort :: "('a \<Rightarrow> 'a \<Rightarrow> bool) \<Rightarrow> 'a list \<Rightarrow> nat \<Rightarrow> nat \<Rightarrow> 'a list option" where
  "unguarded_insertion_sort cmp a first lst = unguarded_insertion_sort_loop cmp [first..<lst] a"

text \<open>\<open>__final_insertion_sort\<close>, with \<open>_S_threshold\<close> = 16.\<close>

definition final_insertion_sort :: "('a \<Rightarrow> 'a \<Rightarrow> bool) \<Rightarrow> 'a list \<Rightarrow> nat \<Rightarrow> nat \<Rightarrow> 'a list option" where
  "final_insertion_sort cmp a first lst =
     (if 16 < lst - first then
        (case insertion_sort cmp a first (first + 16) of
           None \<Rightarrow> None
         | Some a' \<Rightarrow> unguarded_insertion_sort cmp a' (first + 16) lst)
      else insertion_sort cmp a first lst)"

definition iter_swap :: "'a list \<Rightarrow> nat \<Rightarrow> nat \<Rightarrow> 'a list" where
  "iter_swap a i j = a[i := a ! j, j := a ! i]"

text \<open>\<open>__move_median_to_first\<close> of the elements at positions \<open>a\<close>, \<open>b\<close>, \<open>c\<close> of the vector \<open>v\<close>.\<close>

definition move_median_to_first ::
  "('a \<Rightarrow> 'a \<Rightarrow> bool) \<Rightarrow> 'a list \<Rightarrow> nat \<Rightarrow> nat \<Rightarrow> nat \<Rightarrow> nat \<Rightarrow> 'a list" where
  "move_median_to_first cmp v result a b c =
     (if cmp (v ! a) (v ! b) then
        (if cmp (v ! b) (v ! c) then iter_swap v result b
         else if cmp (v ! a) (v ! c) then iter_swap v result c
         else iter_swap v result a)
      else if cmp (v ! a) (v ! c) then iter_swap v result a
      else if cmp (v ! b) (v ! c) then iter_swap v result c
      else iter_swap v result b)"

text \<open>
  \<open>__unguarded_partition\<close>: \<open>scan_up\<close> is \<open>while (comp(first, pivot)) ++first\<close>,
  \<open>scan_down\<close> is \<open>while (comp(pivot, last)) --last\<close>.
\<close>

function scan_up :: "('a \<Rightarrow> 'a \<Rightarrow> bool) \<Rightarrow> 'a list \<Rightarrow> nat \<Rightarrow> nat \<Rightarrow> nat option" where
  "scan_up cmp a pivot first =
     (if first < length a then
        (if cmp (a ! first) (a ! pivot) then scan_up cmp a pivot (Suc first) else Some first)
      else None)"
  by pat_completeness auto
termination
  by (relation "measure (\<lambda>(cmp, a, pivot, first). length a - first)") auto

fun scan_down :: "('a \<Rightarrow> 'a \<Rightarrow> bool) \<Rightarrow> 'a list \<Rightarrow> nat \<Rightarrow> nat \<Rightarrow> nat option" where
  "scan_down cmp a pivot 0 = (if cmp (a ! pivot) (a ! 0) then None else Some 0)"
| "scan_down cmp a pivot (Suc lst) =
     (if cmp (a ! pivot) (a ! Suc lst) then scan_down cmp a pivot lst else Some (Suc lst))"

function unguarded_partition ::
  "('a \<Rightarrow> 'a \<Rightarrow> bool) \<Rightarrow> 'a list \<Rightarrow> nat \<Rightarrow> nat \<Rightarrow> nat \<Rightarrow> ('a list \<times> nat) option" where
  "unguarded_partition cmp a first lst pivot =
     (case scan_up cmp a pivot first of
        None \<Rightarrow> None
      | Some first' \<Rightarrow>
          (if lst = 0 then None
           else
             (case scan_down cmp a pivot (lst - 1) of
                None \<Rightarrow> None
              | Some lst' \<Rightarrow>
                  if \<not> first' < lst' then Some (a, first')
                  else unguarded_partition cmp (iter_swap a first' lst') (Suc first') lst' pivot)))"
  by pat_completeness auto
termination
proof (relation "measure (\<lambda>(cmp, a, first, lst, pivot). lst - first)")
  show "wf (measure (\<lambda>(cmp :: 'a \<Rightarrow> 'a \<Rightarrow> bool, a :: 'a list, first :: nat, lst :: nat, pivot :: nat). lst - first))"
    by simp
next
  fix cmp :: "'a \<Rightarrow> 'a \<Rightarrow> bool" and a :: "'a list" and first lst pivot first' lst' :: nat
  assume up: "scan_up cmp a pivot first = Some first'"
    and down: "scan_down cmp a pivot (lst - 1) = Some lst'"
    and lt: "\<not> \<not> first' < lst'" and pos: "lst \<noteq> 0"
  have ge: "first \<le> k" if "scan_up cmp a pivot first = Some k" for k
    using that
  proof (induction cmp a pivot first rule: scan_up.induct)
    case (1 cmp a pivot first)
    then show ?case by (cases "first < length a"; cases "cmp (a ! first) (a ! pivot)") auto
  qed
  have le: "k \<le> n" if "scan_down cmp a pivot n = Some k" for k n
    using that by (induction n) (auto split: if_splits)
  from ge [OF up] le [OF down] lt pos
  show "((cmp, iter_swap a first' lst', Suc first', lst', pivot), (cmp, a, first, lst, pivot))
          \<in> measure (\<lambda>(cmp, a, first, lst, pivot). lst - first)"
    by simp
qed

definition unguarded_partition_pivot ::
  "('a \<Rightarrow> 'a \<Rightarrow> bool) \<Rightarrow> 'a list \<Rightarrow> nat \<Rightarrow> nat \<Rightarrow> ('a list \<times> nat) option" where
  "unguarded_partition_pivot cmp a first lst =
     (let mid = first + (lst - first) div 2
      in unguarded_partition cmp (move_median_to_first cmp a first (first + 1) mid (lst - 1))
           (first + 1) lst first)"

text \<open>
  The heap sort that \<open>__introsort_loop\<close> falls back to: \<open>__push_heap\<close>,
  \<open>__adjust_heap\<close> (its loop, then the case of a last node with a single child; the
  index arithmetic is signed in C++, and \<open>(len - 2) / 2\<close> is an index only from
  \<open>len = 2\<close> on), \<open>__pop_heap\<close>, \<open>__make_heap\<close>, \<open>__sort_heap\<close>, \<open>__heap_select\<close>
  and \<open>__partial_sort\<close>.
\<close>

function push_heap ::
  "('a \<Rightarrow> 'a \<Rightarrow> bool) \<Rightarrow> 'a list \<Rightarrow> nat \<Rightarrow> nat \<Rightarrow> nat \<Rightarrow> 'a \<Rightarrow> 'a list" where
  "push_heap cmp a first holeIndex topIndex val =
     (if topIndex < holeIndex \<and> cmp (a ! (first + (holeIndex - 1) div 2)) val
      then push_heap cmp (a[first + holeIndex := a ! (first + (holeIndex - 1) div 2)])
             first ((holeIndex - 1) div 2) topIndex val
      else a[first + holeIndex := val])"
  by pat_completeness auto
termination
  by (relation "measure (\<lambda>(cmp, a, first, holeIndex, topIndex, val). holeIndex)") auto

function adjust_heap_loop ::
  "('a \<Rightarrow> 'a \<Rightarrow> bool) \<Rightarrow> 'a list \<Rightarrow> nat \<Rightarrow> nat \<Rightarrow> nat \<Rightarrow> nat \<Rightarrow> 'a list \<times> nat \<times> nat" where
  "adjust_heap_loop cmp a first len holeIndex secondChild =
     (if secondChild < (len - 1) div 2 then
        (if cmp (a ! (first + 2 * (secondChild + 1))) (a ! (first + (2 * (secondChild + 1) - 1)))
         then adjust_heap_loop cmp
                (a[first + holeIndex := a ! (first + (2 * (secondChild + 1) - 1))])
                first len (2 * (secondChild + 1) - 1) (2 * (secondChild + 1) - 1)
         else adjust_heap_loop cmp
                (a[first + holeIndex := a ! (first + 2 * (secondChild + 1))])
                first len (2 * (secondChild + 1)) (2 * (secondChild + 1)))
      else (a, holeIndex, secondChild))"
  by pat_completeness auto
termination
  by (relation "measure (\<lambda>(cmp, a, first, len, holeIndex, secondChild). len - secondChild)") auto

definition adjust_heap ::
  "('a \<Rightarrow> 'a \<Rightarrow> bool) \<Rightarrow> 'a list \<Rightarrow> nat \<Rightarrow> nat \<Rightarrow> nat \<Rightarrow> 'a \<Rightarrow> 'a list" where
  "adjust_heap cmp a first holeIndex len val =
     (case adjust_heap_loop cmp a first len holeIndex holeIndex of
        (a1, holeIndex1, secondChild) \<Rightarrow>
          if even len \<and> 2 \<le> len \<and> secondChild = (len - 2) div 2 then
            push_heap cmp (a1[first + holeIndex1 := a1 ! (first + (2 * (secondChild + 1) - 1))])
              first (2 * (secondChild + 1) - 1) holeIndex val
          else push_heap cmp a1 first holeIndex1 holeIndex val)"

definition pop_heap :: "('a \<Rightarrow> 'a \<Rightarrow> bool) \<Rightarrow> 'a list \<Rightarrow> nat \<Rightarrow> nat \<Rightarrow> nat \<Rightarrow> 'a list" where
  "pop_heap cmp a first lst result =
     adjust_heap cmp (a[result := a ! first]) first 0 (lst - first) (a ! result)"

fun make_heap_loop :: "('a \<Rightarrow> 'a \<Rightarrow> bool) \<Rightarrow> 'a list \<Rightarrow> nat \<Rightarrow> nat \<Rightarrow> nat \<Rightarrow> 'a list" where
  "make_heap_loop cmp a first len 0 = adjust_heap cmp a first 0 len (a ! first)"
| "make_heap_loop cmp a first len (Suc parent) =
     make_heap_loop cmp (adjust_heap cmp a first (Suc parent) len (a ! (first + Suc parent)))
       first len parent"

definition make_heap :: "('a \<Rightarrow> 'a \<Rightarrow> bool) \<Rightarrow> 'a list \<Rightarrow> nat \<Rightarrow> nat \<Rightarrow> 'a list" where
  "make_heap cmp a first lst =
     (if lst - first < 2 then a
      else make_heap_loop cmp a first (lst - first) ((lst - first - 2) div 2))"

function sort_heap :: "('a \<Rightarrow> 'a \<Rightarrow> bool) \<Rightarrow> 'a list \<Rightarrow> nat \<Rightarrow> nat \<Rightarrow> 'a list" where
  "sort_heap cmp a first lst =
     (if 1 < lst - first
      then sort_heap cmp (pop_heap cmp a first (lst - 1) (lst - 1)) first (lst - 1)
      else a)"
  by pat_completeness auto
termination
  by (relation "measure (\<lambda>(cmp, a, first, lst). lst - first)") auto

definition heap_select :: "('a \<Rightarrow> 'a \<Rightarrow> bool) \<Rightarrow> 'a list \<Rightarrow> nat \<Rightarrow> nat \<Rightarrow> nat \<Rightarrow> 'a list" where
  "heap_select cmp a first middle lst =
     fold (\<lambda>i a. if cmp (a ! i) (a ! first) then pop_heap cmp a first middle i else a)
          [middle..<lst] (make_heap cmp a first middle)"

definition partial_sort :: "('a \<Rightarrow> 'a \<Rightarrow> bool) \<Rightarrow> 'a list \<Rightarrow> nat \<Rightarrow> nat \<Rightarrow> nat \<Rightarrow> 'a list" where
  "partial_sort cmp a first middle lst =
     sort_heap cmp (heap_select cmp a first middle lst) first middle"

text \<open>
  \<open>__introsort_loop\<close>: while the range has more than 16 elements it is partitioned
  around the median of three, the upper part is sorted by the recursive call and the
  loop goes on with the lower part; every round takes one from the depth limit, and at 0
  the range is heap sorted instead. \<open>std_lg\<close> is \<open>std::__lg\<close>, and \<open>libstdcxx_sort\<close>
  is \<open>std::__sort\<close>.
\<close>

fun introsort_loop ::
  "('a \<Rightarrow> 'a \<Rightarrow> bool) \<Rightarrow> nat \<Rightarrow> 'a list \<Rightarrow> nat \<Rightarrow> nat \<Rightarrow> 'a list option" where
  "introsort_loop cmp 0 a first lst =
     (if 16 < lst - first then Some (partial_sort cmp a first lst lst) else Some a)"
| "introsort_loop cmp (Suc depth_limit) a first lst =
     (if 16 < lst - first then
        (case unguarded_partition_pivot cmp a first lst of
           None \<Rightarrow> None
         | Some (a1, cutpos) \<Rightarrow>
             (case introsort_loop cmp depth_limit a1 cutpos lst of
                None \<Rightarrow> None
              | Some a2 \<Rightarrow> introsort_loop cmp depth_limit a2 first cutpos))
      else Some a)"

fun std_lg :: "nat \<Rightarrow> nat" where
  "std_lg n = (if n < 2 then 0 else Suc (std_lg (n div 2)))"

definition libstdcxx_sort :: "('a \<Rightarrow> 'a \<Rightarrow> bool) \<Rightarrow> 'a list \<Rightarrow> 'a list option" where
  "libstdcxx_sort cmp a =
     (if a = [] then Some a
      else
        (case introsort_loop cmp (std_lg (length a) * 2) a 0 (length a) of
           None \<Rightarrow> None
         | Some a1 \<Rightarrow> final_insertion_sort cmp a1 0 (length a)))"

text \<open>
  The sort that \<open>SortByPriority\<close> runs when the program is built with GNU libstdc++:
  \<open>std::sort\<close> with the comparator \<open>a.second < b.second\<close>. A step outside the vector
  leaves no sorted list, so that the scheduler reports a fault.
\<close>

definition libstdcxx_priority_sort :: priority_sort where
  "libstdcxx_priority_sort xs =
     (case libstdcxx_sort (\<lambda>a b. snd a < snd b) xs of None \<Rightarrow> [] | Some ys \<Rightarrow> ys)"

subsection \<open>Example states\<close>

text \<open>
  A freshly constructed HARQ manager (2 processes, at most 8 transmissions) whose
  process 0 has just been given a padded 88-byte block.
\<close>

definition harq_example :: NbIotHarqManager where
  "harq_example =
     NbIotHarqManager_new\<lparr>m_processes :=
       [NbIotHarqEntity_new\<lparr>m_active := True, m_tbs := 88,
          m_packet := Some (AddPadding NbIotMacPdu_new 88)\<rparr>,
        NbIotHarqEntity_new]\<rparr>"

text \<open>A freshly constructed HARQ manager configured for a single transmission.\<close>

definition harq_single_tx :: NbIotHarqManager where
  "harq_single_tx = SetMaxTransmissions NbIotHarqManager_new 1"

text \<open>
  Three endpoints A, B, C with RNTIs 1, 2, 3, added through \<open>AddUe\<close> (so connected)
  in normal coverage; each has sent a buffer status report, so each has its request
  flag set and a backlog of 100 bytes.
\<close>

definition mac_three :: NbIotEnbMac where
  "mac_three =
     ProcessBsr (ProcessBsr (ProcessBsr
       (AddUe (AddUe (AddUe NbIotEnbMac_new 1 CE_LEVEL_0) 2 CE_LEVEL_0) 3 CE_LEVEL_0) 1) 2) 3"

text \<open>
  Consecutive uplink (downlink) calls of the round-robin scheduler with one resource
  unit: the granted RNTIs of each call.
\<close>

fun rr_ul_calls :: "nat \<Rightarrow> NbIotRoundRobinScheduler \<Rightarrow> NbIotEnbMac option \<Rightarrow> u16 list list" where
  "rr_ul_calls 0 s m_mac = []"
| "rr_ul_calls (Suc n) s m_mac =
     (case RR_ScheduleUl s m_mac 1 of
        (grants, s', m_mac') \<Rightarrow> map ul_rnti grants # rr_ul_calls n s' m_mac')"

fun rr_dl_calls :: "nat \<Rightarrow> NbIotRoundRobinScheduler \<Rightarrow> NbIotEnbMac option \<Rightarrow> u16 list list" where
  "rr_dl_calls 0 s m_mac = []"
| "rr_dl_calls (Suc n) s m_mac =
     (case RR_ScheduleDl s m_mac 1 of
        (assignments, s', m_mac') \<Rightarrow> map dl_rnti assignments # rr_dl_calls n s' m_mac')"

text \<open>The same three endpoints, each with four 150-byte SDUs queued for the downlink.\<close>

definition mac_three_dl :: NbIotEnbMac where
  "mac_three_dl =
     mac_three\<lparr>m_dlTxQueues := (\<lambda>r. if r = 1 \<or> r = 2 \<or> r = 3
                                      then replicate 4 (1, Packet 0 150) else [])\<rparr>"

text \<open>
  The three endpoints after the RRC has released endpoint 1: \<open>RemoveUe\<close> has erased its
  context, its queue and its HARQ managers.
\<close>

definition mac_released :: NbIotEnbMac where
  "mac_released = RemoveUe mac_three 1"

text \<open>
  Seventeen endpoints that came in through random access in normal coverage, so with
  RNTIs 1 to 17, each of which has then sent a buffer status report.
\<close>

definition mac_seventeen :: NbIotEnbMac where
  "mac_seventeen =
     fold (\<lambda>r mac. ProcessBsr mac r) [1, 2, 3, 4, 5, 6, 7, 8, 9, 10, 11, 12, 13, 14, 15, 16, 17]
          (((\<lambda>mac. GenerateRar mac CE_LEVEL_0) ^^ 17) NbIotEnbMac_new)"

text \<open>
  Three connected endpoints of mixed coverage classes: RNTI 1 in normal coverage, RNTI 2
  in the most extended class, RNTI 3 in the medium class. Each has sent a buffer status
  report and has one 10-byte SDU queued for the downlink.
\<close>

definition mac_mixed :: NbIotEnbMac where
  "mac_mixed =
     TransmitSdu (TransmitSdu (TransmitSdu
       (ProcessBsr (ProcessBsr (ProcessBsr
          (AddUe (AddUe (AddUe NbIotEnbMac_new 1 CE_LEVEL_0) 2 CE_LEVEL_2) 3 CE_LEVEL_1) 1) 2) 3)
       1 1 (Packet 0 10)) 2 1 (Packet 1 10)) 3 1 (Packet 2 10)"

text \<open>
  An SPS scheduler in which endpoints 1 and 2 were both activated at time 100 (ms) with
  no earlier configuration, so each got the default interval of 20.
\<close>

definition sps_two :: NbIotSpsScheduler where
  "sps_two = ActivateSps (ActivateSps NbIotSpsScheduler_new 100 1) 100 2"

text \<open>The state of every configuration: RNTI, active flag, interval, next allocation.\<close>

definition sps_schedule :: "NbIotSpsScheduler \<Rightarrow> (u16 \<times> bool \<times> Time \<times> Time) list" where
  "sps_schedule s =
     map (\<lambda>(k, c). (k, active c, spsInterval c, nextAllocation c)) (m_spsConfigs s)"

text \<open>
  Consecutive uplink calls of the SPS scheduler with one resource unit at the given
  times: the granted RNTIs of each call and the configurations after it.
\<close>

fun sps_ul_calls ::
  "Time list \<Rightarrow> NbIotSpsScheduler \<Rightarrow> NbIotEnbMac option \<Rightarrow>
     (u16 list \<times> (u16 \<times> bool \<times> Time \<times> Time) list) list" where
  "sps_ul_calls [] s m_mac = []"
| "sps_ul_calls (t # ts) s m_mac =
     (case SPS_ScheduleUl s m_mac t 1 of
        (grants, s', m_mac') \<Rightarrow> (map ul_rnti grants, sps_schedule s') # sps_ul_calls ts s' m_mac')"


text \<open>
  A MAC with a PHY and one endpoint, RNTI 1, whose downlink HARQ manager has a pool of
  a single process, with one 10-byte SDU queued; and the same MAC one subframe later
  (the first SDU sent and not yet acknowledged) with a second SDU queued.
\<close>

definition mac_one_process :: NbIotEnbMac where
  "mac_one_process =
     TransmitSdu
       ((SetPhy (AddUe NbIotEnbMac_new 1 CE_LEVEL_0))
          \<lparr>m_dlHarqManagers := [(1, SetNumProcesses NbIotHarqManager_new 1)]\<rparr>)
       1 1 (Packet 1 10)"

definition mac_busy :: NbIotEnbMac where
  "mac_busy =
     TransmitSdu (projr (DoScheduleDl stable_priority_sort mac_one_process)) 1 1 (Packet 2 10)"

text \<open>
  For one endpoint: the active flag and buffered SDUs of each downlink HARQ process, and
  the SDUs still queued.
\<close>

definition harq_view :: "NbIotEnbMac \<Rightarrow> u16 \<Rightarrow> (bool \<times> Packet list option) list option" where
  "harq_view mac r =
     map_option (\<lambda>mgr. map (\<lambda>e. (m_active e, map_option (\<lambda>pdu. map snd (pdu_sdus pdu)) (m_packet e)))
                            (m_processes mgr))
       (map_of (m_dlHarqManagers mac) r)"

definition queued :: "NbIotEnbMac \<Rightarrow> u16 \<Rightarrow> Packet list" where
  "queued mac r = map snd (m_dlTxQueues mac r)"

text \<open>The SDUs of every block handed to the PHY so far.\<close>

definition sent_blocks :: "NbIotEnbMac \<Rightarrow> Packet list list" where
  "sent_blocks mac =
     (case m_phy mac of
        None \<Rightarrow> []
      | Some calls \<Rightarrow>
          concat (map (\<lambda>call. case call of
                                 TransmitNpdsch pdu r mcs reps \<Rightarrow> [map snd (pdu_sdus pdu)]
                               | _ \<Rightarrow> []) calls))"

section \<open>Properties\<close>

subsection \<open>The example state with three endpoints\<close>



subsection \<open>HARQ retransmission bookkeeping\<close>

lemma Reset_eq_new: "Reset e = NbIotHarqEntity_new"
  by (cases e) (simp add: Reset_def NbIotHarqEntity_new_def)


lemma nacks_below:
  assumes pid: "processId < m_numProcesses m" and len: "unat processId < length (m_processes m)"
    and tx: "m_txCount (m_processes m ! unat processId) = of_nat c"
    and bound: "c + n < unat (m_maxTransmissions m)"
  shows "nacks n m processId =
     Inr (replicate n True,
          m\<lparr>m_processes := (m_processes m)[unat processId :=
               (m_processes m ! unat processId)\<lparr>m_txCount := of_nat (c + n)\<rparr>]\<rparr>)"
  using assms
proof (induction n arbitrary: m c)
  case 0
  have "(m_processes m ! unat processId)\<lparr>m_txCount := of_nat c\<rparr> = m_processes m ! unat processId"
    using "0.prems"(3) [symmetric] by simp
  then show ?case by simp
next
  case (Suc n)
  let ?e = "m_processes m ! unat processId"
  let ?m' = "m\<lparr>m_processes := (m_processes m)[unat processId := IncrementTxCount ?e]\<rparr>"
  have lt: "Suc c < unat (m_maxTransmissions m)" using Suc.prems by simp
  have "unat (of_nat (Suc c) :: u8) = Suc c"
    using lt le_unat_uoi [of "Suc c" "m_maxTransmissions m"] by simp
  then have "(of_nat (Suc c) :: u8) < m_maxTransmissions m"
    using lt by (simp add: word_less_nat_alt del: of_nat_Suc)
  then have step: "ProcessNack m processId = Inr (True, ?m')"
    using Suc.prems by (simp add: ProcessNack_def IncrementTxCount_def Let_def add.commute linorder_not_le)
  have "nacks n ?m' processId = Inr (replicate n True,
          ?m'\<lparr>m_processes := (m_processes ?m')[unat processId :=
               (m_processes ?m' ! unat processId)\<lparr>m_txCount := of_nat (Suc c + n)\<rparr>]\<rparr>)"
    using Suc.prems by (intro Suc.IH) (simp_all add: IncrementTxCount_def)
  then show ?case using step Suc.prems by (simp add: IncrementTxCount_def)
qed


lemma nacks_snoc:
  "nacks n m processId = Inr (rs, m') \<Longrightarrow>
   nacks (Suc n) m processId =
     (case ProcessNack m' processId of Inl f \<Rightarrow> Inl f | Inr (r, m'') \<Rightarrow> Inr (rs @ [r], m''))"
proof (induction n arbitrary: m rs)
  case 0
  then show ?case by (auto split: sum.splits)
next
  case (Suc n)
  from Suc.prems obtain r m1 rs1 where
    step: "ProcessNack m processId = Inr (r, m1)" and
    rest: "nacks n m1 processId = Inr (rs1, m')" and rs: "rs = r # rs1"
    by (auto split: sum.splits)
  from Suc.IH [OF rest] step rs show ?case
    by (simp split: sum.splits prod.splits)
qed

lemma NbIotHarqManager_new_unfold:
  "NbIotHarqManager_new =
     \<lparr>m_numProcesses = 2, m_maxTransmissions = 8,
      m_processes = [NbIotHarqEntity_new, NbIotHarqEntity_new]\<rparr>"
  by (simp add: NbIotHarqManager_new_def numeral_2_eq_2)


text \<open>
  Claim C2 (HARQ retry bound). Take a manager with \<open>m_maxTransmissions = K\<close>,
  \<open>K \<ge> 1\<close>, and a process in its pool that is active with transmission count 0.
  \<open>K - 1\<close> consecutive \<open>ProcessNack\<close> calls all answer true (retry) and leave the
  process as it was (still active, buffered block in place) except that its count is
  \<open>K - 1\<close>; with one more, the \<open>K\<close>-th, the answer is false (give up) and the
  process is reset (inactive, count 0, no block); and \<open>ProcessAck\<close> resets the process
  whatever its count \<open>c\<close> is.
\<close>

theorem harq_retry_bound:
  assumes pid: "processId < m_numProcesses m"
    and len: "unat processId < length (m_processes m)"
    and K: "0 < m_maxTransmissions m"
    and act: "m_active (m_processes m ! unat processId)"
    and tx: "m_txCount (m_processes m ! unat processId) = 0"
  shows "nacks (unat (m_maxTransmissions m) - 1) m processId =
           Inr (replicate (unat (m_maxTransmissions m) - 1) True,
                m\<lparr>m_processes := (m_processes m)[unat processId :=
                     (m_processes m ! unat processId)\<lparr>m_txCount := m_maxTransmissions m - 1\<rparr>]\<rparr>)
         \<and> nacks (unat (m_maxTransmissions m)) m processId =
           Inr (replicate (unat (m_maxTransmissions m) - 1) True @ [False],
                m\<lparr>m_processes := (m_processes m)[unat processId := NbIotHarqEntity_new]\<rparr>)
         \<and> (\<forall>c. ProcessAck (m\<lparr>m_processes := (m_processes m)[unat processId :=
                     (m_processes m ! unat processId)\<lparr>m_txCount := c\<rparr>]\<rparr>) processId =
                  Inr (m\<lparr>m_processes := (m_processes m)[unat processId := NbIotHarqEntity_new]\<rparr>))"
proof -
  let ?K = "m_maxTransmissions m"
  let ?e = "m_processes m ! unat processId"
  let ?m1 = "m\<lparr>m_processes := (m_processes m)[unat processId := ?e\<lparr>m_txCount := ?K - 1\<rparr>]\<rparr>"
  have Kpos: "0 < unat ?K" using K by (simp add: word_less_nat_alt)
  have last: "(of_nat (unat ?K - 1) :: u8) = ?K - 1"
  proof -
    have "unat (?K - 1) = unat ?K - 1" using K by (simp add: unat_minus_one)
    then have "(of_nat (unat ?K - 1) :: u8) = of_nat (unat (?K - 1))" by simp
    then show ?thesis by simp
  qed
  have first: "nacks (unat ?K - 1) m processId = Inr (replicate (unat ?K - 1) True, ?m1)"
    using nacks_below [of processId m 0 "unat ?K - 1"] pid len tx Kpos last by simp
  have kth: "ProcessNack ?m1 processId =
               Inr (False, m\<lparr>m_processes := (m_processes m)[unat processId := NbIotHarqEntity_new]\<rparr>)"
    using pid len by (simp add: ProcessNack_def IncrementTxCount_def Let_def Reset_eq_new linorder_not_le)
  have "nacks (Suc (unat ?K - 1)) m processId =
          Inr (replicate (unat ?K - 1) True @ [False],
               m\<lparr>m_processes := (m_processes m)[unat processId := NbIotHarqEntity_new]\<rparr>)"
    using nacks_snoc [OF first] kth by simp
  then have second: "nacks (unat ?K) m processId =
          Inr (replicate (unat ?K - 1) True @ [False],
               m\<lparr>m_processes := (m_processes m)[unat processId := NbIotHarqEntity_new]\<rparr>)"
    using Kpos by simp
  have ack: "\<forall>c. ProcessAck (m\<lparr>m_processes := (m_processes m)[unat processId := ?e\<lparr>m_txCount := c\<rparr>]\<rparr>) processId =
                  Inr (m\<lparr>m_processes := (m_processes m)[unat processId := NbIotHarqEntity_new]\<rparr>)"
    using pid len by (simp add: ProcessAck_def Reset_eq_new)
  from first second ack show ?thesis by blast
qed

theorem harq_retry_bound_witness:
  "nacks 7 harq_example 0 =
     Inr (replicate 7 True,
          harq_example\<lparr>m_processes :=
            [NbIotHarqEntity_new\<lparr>m_active := True, m_tbs := 88,
               m_packet := Some (AddPadding NbIotMacPdu_new 88), m_txCount := 7\<rparr>,
             NbIotHarqEntity_new]\<rparr>)
   \<and> nacks 8 harq_example 0 =
     Inr (replicate 7 True @ [False],
          harq_example\<lparr>m_processes := [NbIotHarqEntity_new, NbIotHarqEntity_new]\<rparr>)
   \<and> m_active (m_processes harq_example ! 0) \<and> m_txCount (m_processes harq_example ! 0) = 0"
  using harq_retry_bound [of 0 harq_example]
  by (simp add: harq_example_def NbIotHarqManager_new_unfold NbIotHarqEntity_new_def)


text \<open>
  Claim C9 (NACK on an inactive process), as the code has it. \<open>ProcessNack\<close> never
  looks at the active flag: on a process id inside the pool whose entity is inactive it
  still increments the transmission count, then answers false and resets the entity if
  the count has reached \<open>m_maxTransmissions\<close>, and answers true and keeps the
  incremented count otherwise. A call on a process id inside the pool leaves the manager
  as it was exactly when the maximum is at most 1 and the entity is already in its reset
  state (the increment and the reset then cancel, and the answer is false); so with a
  maximum of at least 2 it always changes the manager. On a process id at or beyond
  \<open>m_numProcesses\<close> it answers false and the manager is unchanged.
\<close>

theorem nack_ignores_active_flag:
  "(processId < m_numProcesses m \<and> unat processId < length (m_processes m) \<and>
      \<not> m_active (m_processes m ! unat processId) \<longrightarrow>
      ProcessNack m processId =
        (if m_maxTransmissions m \<le> m_txCount (m_processes m ! unat processId) + 1
         then Inr (False, m\<lparr>m_processes := (m_processes m)[unat processId := NbIotHarqEntity_new]\<rparr>)
         else Inr (True, m\<lparr>m_processes := (m_processes m)[unat processId :=
                (m_processes m ! unat processId)
                  \<lparr>m_txCount := m_txCount (m_processes m ! unat processId) + 1\<rparr>]\<rparr>)))
   \<and> (processId < m_numProcesses m \<and> unat processId < length (m_processes m) \<longrightarrow>
        ((\<exists>b. ProcessNack m processId = Inr (b, m)) \<longleftrightarrow>
           m_maxTransmissions m \<le> 1 \<and> m_processes m ! unat processId = NbIotHarqEntity_new))
   \<and> (processId < m_numProcesses m \<and> unat processId < length (m_processes m) \<and>
      1 < m_maxTransmissions m \<longrightarrow> ProcessNack m processId \<noteq> Inr (False, m))
   \<and> (m_numProcesses m \<le> processId \<longrightarrow> ProcessNack m processId = Inr (False, m))"
proof -
  let ?e = "m_processes m ! unat processId"
  have upd: "m\<lparr>m_processes := (m_processes m)[unat processId := e']\<rparr> = m \<longleftrightarrow> e' = ?e"
    if "unat processId < length (m_processes m)" for e'
  proof
    assume "m\<lparr>m_processes := (m_processes m)[unat processId := e']\<rparr> = m"
    then have "m_processes (m\<lparr>m_processes := (m_processes m)[unat processId := e']\<rparr>) = m_processes m"
      by simp
    then have "(m_processes m)[unat processId := e'] = m_processes m" by simp
    with that show "e' = ?e" by (metis nth_list_update_eq)
  next
    assume "e' = ?e"
    then show "m\<lparr>m_processes := (m_processes m)[unat processId := e']\<rparr> = m" by simp
  qed
  have inc: "?e\<lparr>m_txCount := m_txCount ?e + 1\<rparr> \<noteq> ?e"
  proof
    assume "?e\<lparr>m_txCount := m_txCount ?e + 1\<rparr> = ?e"
    then have "m_txCount (?e\<lparr>m_txCount := m_txCount ?e + 1\<rparr>) = m_txCount ?e" by simp
    then show False by simp
  qed
  have noop: "(\<exists>b. ProcessNack m processId = Inr (b, m)) \<longleftrightarrow>
           m_maxTransmissions m \<le> 1 \<and> ?e = NbIotHarqEntity_new"
    if inr: "processId < m_numProcesses m" "unat processId < length (m_processes m)"
  proof (cases "m_maxTransmissions m \<le> m_txCount ?e + 1")
    case True
    with inr have "ProcessNack m processId =
        Inr (False, m\<lparr>m_processes := (m_processes m)[unat processId := NbIotHarqEntity_new]\<rparr>)"
      by (simp add: ProcessNack_def IncrementTxCount_def Let_def Reset_eq_new linorder_not_le)
    then have "(\<exists>b. ProcessNack m processId = Inr (b, m)) \<longleftrightarrow> NbIotHarqEntity_new = ?e"
      using upd [OF inr(2), of NbIotHarqEntity_new] by auto
    moreover have "m_maxTransmissions m \<le> 1" if "?e = NbIotHarqEntity_new"
      using True that by (simp add: NbIotHarqEntity_new_def)
    ultimately show ?thesis by auto
  next
    case False
    with inr have "ProcessNack m processId =
        Inr (True, m\<lparr>m_processes := (m_processes m)[unat processId := ?e\<lparr>m_txCount := m_txCount ?e + 1\<rparr>]\<rparr>)"
      by (simp add: ProcessNack_def IncrementTxCount_def Let_def linorder_not_le)
    then have "\<not> (\<exists>b. ProcessNack m processId = Inr (b, m))"
      using upd [OF inr(2), of "?e\<lparr>m_txCount := m_txCount ?e + 1\<rparr>"] inc by auto
    moreover have "\<not> (m_maxTransmissions m \<le> 1 \<and> ?e = NbIotHarqEntity_new)"
      using False by (auto simp: NbIotHarqEntity_new_def)
    ultimately show ?thesis by simp
  qed
  have changed: "ProcessNack m processId \<noteq> Inr (False, m)"
    if inr: "processId < m_numProcesses m" "unat processId < length (m_processes m)"
      and K: "1 < m_maxTransmissions m"
    using noop [OF inr] K by (auto simp: linorder_not_le)
  have first: "processId < m_numProcesses m \<and> unat processId < length (m_processes m) \<and>
      \<not> m_active (m_processes m ! unat processId) \<longrightarrow>
      ProcessNack m processId =
        (if m_maxTransmissions m \<le> m_txCount (m_processes m ! unat processId) + 1
         then Inr (False, m\<lparr>m_processes := (m_processes m)[unat processId := NbIotHarqEntity_new]\<rparr>)
         else Inr (True, m\<lparr>m_processes := (m_processes m)[unat processId :=
                (m_processes m ! unat processId)
                  \<lparr>m_txCount := m_txCount (m_processes m ! unat processId) + 1\<rparr>]\<rparr>))"
    by (auto simp add: ProcessNack_def IncrementTxCount_def Let_def Reset_eq_new)
  have last: "m_numProcesses m \<le> processId \<longrightarrow> ProcessNack m processId = Inr (False, m)"
    by (auto simp add: ProcessNack_def)
  from first noop changed last show ?thesis by blast
qed

theorem nack_ignores_active_flag_witness:
  "ProcessNack NbIotHarqManager_new 1 =
     Inr (True, NbIotHarqManager_new\<lparr>m_processes :=
            [NbIotHarqEntity_new, NbIotHarqEntity_new\<lparr>m_txCount := 1\<rparr>]\<rparr>)
   \<and> (\<forall>b. ProcessNack NbIotHarqManager_new 1 \<noteq> Inr (b, NbIotHarqManager_new))
   \<and> ProcessNack NbIotHarqManager_new 1 \<noteq> Inr (False, NbIotHarqManager_new)
   \<and> ProcessNack NbIotHarqManager_new 2 = Inr (False, NbIotHarqManager_new)"
  using nack_ignores_active_flag [of 1 NbIotHarqManager_new]
        nack_ignores_active_flag [of 2 NbIotHarqManager_new]
  by (simp add: NbIotHarqManager_new_unfold NbIotHarqEntity_new_def word_le_nat_alt)

text \<open>
  Claim C9 as stated says that only a process id outside the pool leaves all state
  unchanged and gets the answer false. With a maximum of 1 transmission (the attribute
  admits 1 to 16) that fails: on a freshly constructed manager, process 0 is inside the
  pool and inactive, and a NACK on it increments the count to 1 and resets the entity in
  the same call, so the answer is false and the manager afterwards equals the manager
  before.
\<close>

theorem nack_noop_at_max_one:
  "m_maxTransmissions harq_single_tx = 1
   \<and> (0 :: u8) < m_numProcesses harq_single_tx
   \<and> \<not> m_active (m_processes harq_single_tx ! 0)
   \<and> ProcessNack harq_single_tx 0 = Inr (False, harq_single_tx)"
  by code_simp


subsection \<open>SPS configuration\<close>

lemma map_of_map_assign: "map_of (map_assign k v xs) k = Some v"
  by (induction xs) auto

lemma select_cqi7_12: "SelectMcsAndTbs 7 12 = (4, 88)"
  by (simp add: SelectMcsAndTbs_def)

lemma select_cqi7_lt12:
  assumes "n < 12"
  shows "fst (SelectMcsAndTbs 7 n) = 4"
    and "unat (snd (SelectMcsAndTbs 7 n)) = max 16 (88 * unat n div 12)"
proof -
  have n: "unat n < 12" using assms by (simp add: word_less_nat_alt)
  then have small: "88 * unat n div 12 < 2 ^ 16" by simp
  have u: "unat (word_of_nat (88 * unat n div 12) :: u16) = 88 * unat n div 12"
    using small by (simp add: unat_of_nat del: of_nat_mult)
  show "fst (SelectMcsAndTbs 7 n) = 4" using assms by (simp add: SelectMcsAndTbs_def Let_def)
  show "unat (snd (SelectMcsAndTbs 7 n)) = max 16 (88 * unat n div 12)"
    using assms u by (simp add: SelectMcsAndTbs_def Let_def word_less_nat_alt max_def del: of_nat_mult)
qed


text \<open>
  Claim C10 (SPS configuration uses the default CQI). \<open>ConfigureSps\<close> takes no UE
  context and no channel quality: whatever the scheduler state, the RNTI and the
  interval, the stored configuration has the coding index and block size that
  \<open>SelectMcsAndTbs\<close> gives for CQI 7. With 12 subcarriers that is \<open>mcs = 4\<close> and
  \<open>tbSize = 88\<close>; with \<open>n < 12\<close> subcarriers the block size is
  \<open>max 16 (88 * n div 12)\<close>.
\<close>

theorem configure_sps_default_cqi:
  "GetSpsConfig (ConfigureSps s now r interval n) r =
     Some (NbIotSpsConfig_new\<lparr>sps_rnti := r, spsInterval := interval,
             sps_numSubcarriers := n, nextAllocation := now, active := False,
             sps_mcs := fst (SelectMcsAndTbs 7 n), sps_tbSize := snd (SelectMcsAndTbs 7 n)\<rparr>)
   \<and> (n = 12 \<longrightarrow> SelectMcsAndTbs 7 n = (4, 88))
   \<and> (n < 12 \<longrightarrow> fst (SelectMcsAndTbs 7 n) = 4 \<and>
                 unat (snd (SelectMcsAndTbs 7 n)) = max 16 (88 * unat n div 12))"
  using select_cqi7_lt12 [of n] select_cqi7_12
  by (auto simp: GetSpsConfig_def ConfigureSps_def map_of_map_assign split: prod.splits)

theorem configure_sps_default_cqi_witness:
  "GetSpsConfig (ConfigureSps NbIotSpsScheduler_new 100 5 20 12) 5 =
     Some (NbIotSpsConfig_new\<lparr>sps_rnti := 5, spsInterval := 20, sps_numSubcarriers := 12,
             nextAllocation := 100, active := False, sps_mcs := 4, sps_tbSize := 88\<rparr>)
   \<and> fst (SelectMcsAndTbs 7 3) = 4 \<and> unat (snd (SelectMcsAndTbs 7 3)) = 22"
  using configure_sps_default_cqi [of NbIotSpsScheduler_new 100 5 20 12]
        configure_sps_default_cqi [of NbIotSpsScheduler_new 100 5 20 3]
  by simp

subsection \<open>The sort contract and the front of the sorted list\<close>

lemma mset_insert_before_equal: "mset (insert_before_equal x ys) = add_mset x (mset ys)"
  by (induction ys) auto

lemma sorted_insert_before_equal:
  "sorted_wrt (\<lambda>a b. \<not> snd b < snd a) ys \<Longrightarrow>
   sorted_wrt (\<lambda>a b. \<not> snd b < snd a) (insert_before_equal x ys)"
proof (induction ys)
  case Nil
  then show ?case by simp
next
  case (Cons y ys)
  have "set (insert_before_equal x ys) = insert x (set ys)"
    using mset_insert_before_equal [of x ys] by (metis set_mset_add_mset_insert set_mset_mset)
  with Cons show ?case by (auto simp: linorder_not_less)
qed

lemma stable_priority_sort_contract: "std_sort_contract stable_priority_sort"
proof -
  have "mset (foldr insert_before_equal xs []) = mset xs \<and>
        sorted_wrt (\<lambda>a b. \<not> snd b < snd a) (foldr insert_before_equal xs [])" for xs
    by (induction xs) (simp_all add: mset_insert_before_equal sorted_insert_before_equal)
  then show ?thesis by (simp add: std_sort_contract_def stable_priority_sort_def)
qed

text \<open>What \<open>SortByPriority\<close> hands to the sort when every RNTI has a context.\<close>

lemma priority_pairs:
  assumes "set cands \<subseteq> fst ` set (m_ueContexts mac)"
  shows "List.map_filter
           (\<lambda>r. case GetUeContext (Some mac) r of
                  None \<Rightarrow> None
                | Some context \<Rightarrow> Some (r, GetPriority (coverageClass context))) cands
         = map (\<lambda>r. (r, GetPriority (coverageClass (the (map_of (m_ueContexts mac) r))))) cands"
  using assms
proof (induction cands)
  case Nil
  then show ?case by (simp add: List.map_filter_def)
next
  case (Cons r cands)
  then have "r \<in> fst ` set (m_ueContexts mac)" by simp
  then obtain c where "map_of (m_ueContexts mac) r = Some c"
    by (cases "map_of (m_ueContexts mac) r") (simp_all add: map_of_eq_None_iff)
  with Cons show ?case by (simp add: List.map_filter_def GetUeContext_def)
qed

lemma SortByPriority_front:
  assumes contract: "std_sort_contract srt"
    and nonempty: "cands \<noteq> []"
    and known: "set cands \<subseteq> fst ` set (m_ueContexts mac)"
  shows "\<exists>r rest c. SortByPriority srt (Some mac) cands = r # rest \<and> r \<in> set cands \<and>
           map_of (m_ueContexts mac) r = Some c \<and>
           (\<forall>r' \<in> set cands. \<forall>c'. map_of (m_ueContexts mac) r' = Some c' \<longrightarrow>
              GetPriority (coverageClass c) \<le> GetPriority (coverageClass c'))"
proof -
  define pri where "pri = (\<lambda>r. GetPriority (coverageClass (the (map_of (m_ueContexts mac) r))))"
  define xs where "xs = map (\<lambda>r. (r, pri r)) cands"
  have sorted_eq: "SortByPriority srt (Some mac) cands = map fst (srt xs)"
    by (simp add: SortByPriority_def priority_pairs [OF known] xs_def pri_def)
  from contract have ms: "mset (srt xs) = mset xs"
    and so: "sorted_wrt (\<lambda>a b. \<not> snd b < snd a) (srt xs)"
    by (simp_all add: std_sort_contract_def)
  from ms have sets: "set (srt xs) = set xs" by (rule mset_eq_setD)
  have "srt xs \<noteq> []"
  proof
    assume "srt xs = []"
    with ms have "xs = []" by simp
    with nonempty show False by (simp add: xs_def)
  qed
  then obtain y ys where y: "srt xs = y # ys" by (cases "srt xs") auto
  from y sets have yin: "y \<in> set xs" by auto
  then obtain r where r: "r \<in> set cands" "y = (r, pri r)" by (auto simp: xs_def)
  from r(1) known have "r \<in> fst ` set (m_ueContexts mac)" by auto
  then obtain c where c: "map_of (m_ueContexts mac) r = Some c"
    by (cases "map_of (m_ueContexts mac) r") (simp_all add: map_of_eq_None_iff)
  have least: "snd y \<le> snd z" if "z \<in> set xs" for z
  proof -
    from that sets y have "z = y \<or> z \<in> set ys" by auto
    with so y show ?thesis by (auto simp: linorder_not_less)
  qed
  have low: "GetPriority (coverageClass c) \<le> GetPriority (coverageClass c')"
    if "r' \<in> set cands" "map_of (m_ueContexts mac) r' = Some c'" for r' c'
  proof -
    from that(1) have "(r', pri r') \<in> set xs" by (auto simp: xs_def)
    from least [OF this] r(2) c that(2) show ?thesis by (simp add: pri_def)
  qed
  have "SortByPriority srt (Some mac) cands = r # map fst ys"
    using sorted_eq y r(2) by simp
  with r(1) c low show ?thesis by blast
qed


subsection \<open>Resource budget of one scheduling call\<close>


lemma word_inc_below:
  fixes a b :: "'a::len word"
  assumes "a < b"
  shows "unat (a + 1) = Suc (unat a)" and "a + 1 \<le> b"
  using assms by unat_arith+

lemma word_nonzero_unat: "(a :: 'a::len word) \<noteq> 0 \<Longrightarrow> 1 \<le> unat a"
  by (simp add: unat_eq_zero Suc_le_eq unat_gt_0)

lemma sps_dl_loop_budget:
  "usedRbs \<le> availableRbs \<Longrightarrow> sps_dl_loop availableRbs rs usedRbs mac = (as, mac') \<Longrightarrow>
   length as + unat usedRbs \<le> unat availableRbs"
proof (induction rs arbitrary: usedRbs mac as)
  case Nil
  then show ?case by (simp add: word_le_nat_alt)
next
  case (Cons r rs)
  show ?case
  proof (cases "availableRbs \<le> usedRbs")
    case True
    with Cons.prems show ?thesis by (simp add: word_le_nat_alt)
  next
    case False
    then have lt: "usedRbs < availableRbs" by simp
    show ?thesis
    proof (cases "m_dlTxQueues mac r = []")
      case True
      with Cons.prems False Cons.IH [of usedRbs mac as] show ?thesis by simp
    next
      case nonempty: False
      from Cons.prems(2) False nonempty obtain as' where
        rest: "sps_dl_loop availableRbs rs (usedRbs + 1)
                 (mac\<lparr>m_dlTxQueues := (m_dlTxQueues mac)(r := drop 8 (m_dlTxQueues mac r))\<rparr>) = (as', mac')"
        and as: "length as = Suc (length as')"
        by (auto simp: Let_def split: prod.splits)
      from Cons.IH [OF word_inc_below(2) [OF lt] rest] as word_inc_below(1) [OF lt]
      show ?thesis by simp
    qed
  qed
qed


lemma dynamic_grants_loop_budget:
  "usedRbs \<le> availableRbs \<Longrightarrow> dynamic_grants_loop availableRbs rs usedRbs mac = (gs, mac') \<Longrightarrow>
   length gs + unat usedRbs \<le> unat availableRbs"
proof (induction rs arbitrary: usedRbs mac gs)
  case Nil
  then show ?case by (simp add: word_le_nat_alt)
next
  case (Cons r rs)
  show ?case
  proof (cases "availableRbs \<le> usedRbs")
    case True
    with Cons.prems show ?thesis by (simp add: word_le_nat_alt)
  next
    case False
    then have lt: "usedRbs < availableRbs" by simp
    show ?thesis
    proof (cases "map_of (m_ueContexts mac) r")
      case None
      with Cons.prems False Cons.IH [of usedRbs mac gs] show ?thesis by simp
    next
      case (Some ueContext)
      from Cons.prems(2) False Some obtain gs' mac1 where
        rest: "dynamic_grants_loop availableRbs rs (usedRbs + 1) mac1 = (gs', mac')"
        and gs: "length gs = Suc (length gs')"
        by (auto simp: Let_def split: prod.splits)
      from Cons.IH [OF word_inc_below(2) [OF lt] rest] gs word_inc_below(1) [OF lt]
      show ?thesis by simp
    qed
  qed
qed

lemma sps_grants_loop_budget:
  "usedRbs \<le> availableRbs \<Longrightarrow>
   sps_grants_loop currentTime availableRbs m_mac idx usedRbs s = (gs, s') \<Longrightarrow>
   length gs + unat usedRbs \<le> unat availableRbs"
proof (induction idx arbitrary: usedRbs s gs)
  case Nil
  then show ?case by (simp add: word_le_nat_alt)
next
  case (Cons i idx)
  show ?case
  proof (cases "availableRbs \<le> usedRbs")
    case True
    with Cons.prems show ?thesis by (simp add: word_le_nat_alt)
  next
    case False
    then have lt: "usedRbs < availableRbs" by simp
    let ?config = "snd (m_spsConfigs s ! i)"
    show ?thesis
    proof (cases "active ?config \<and> nextAllocation ?config \<le> currentTime")
      case skip: False
      with Cons.prems False have "sps_grants_loop currentTime availableRbs m_mac idx usedRbs s = (gs, s')"
        by (auto simp: Let_def split: if_splits)
      from Cons.IH [OF Cons.prems(1) this] show ?thesis .
    next
      case True
      with Cons.prems(2) False obtain gs' s2 where
        rest: "sps_grants_loop currentTime availableRbs m_mac idx (usedRbs + 1) s2 = (gs', s')"
        and gs: "length gs = Suc (length gs')"
        by (auto simp: Let_def split: prod.splits)
      from Cons.IH [OF word_inc_below(2) [OF lt] rest] gs word_inc_below(1) [OF lt]
      show ?thesis by simp
    qed
  qed
qed

lemma remaining_rbs:
  "unat (fold (\<lambda>grant remainingRbs. if 0 < remainingRbs then remainingRbs - 1 else 0) gs (a :: u8))
     = unat a - length gs"
proof (induction gs arbitrary: a)
  case Nil
  then show ?case by simp
next
  case (Cons g gs)
  show ?case
  proof (cases "0 < a")
    case True
    then have "unat (a - 1) = unat a - 1" by (simp add: unat_minus_one)
    with Cons [of "a - 1"] True show ?thesis by simp
  next
    case False
    then have "a = 0" by (simp add: word_greater_zero_iff)
    with Cons [of 0] show ?thesis by simp
  qed
qed

lemma SPS_ScheduleDl_budget:
  "SPS_ScheduleDl m_mac availableRbs = (as, m') \<Longrightarrow> length as \<le> unat availableRbs"
  using sps_dl_loop_budget [of 0 availableRbs]
  by (fastforce simp: SPS_ScheduleDl_def split: option.splits prod.splits)

lemma ScheduleDynamicGrants_budget:
  "ScheduleDynamicGrants s m_mac availableRbs = (gs, m') \<Longrightarrow> length gs \<le> unat availableRbs"
  using dynamic_grants_loop_budget [of 0 availableRbs]
  by (fastforce simp: ScheduleDynamicGrants_def Let_def split: option.splits prod.splits if_splits)

lemma SPS_ScheduleUl_budget:
  assumes "SPS_ScheduleUl s m_mac now availableRbs = (gs, s', m')"
  shows "length gs \<le> unat availableRbs"
proof -
  from assms obtain spsGrants s1 dynamicGrants where
    sps: "ScheduleSpsGrants (s\<lparr>m_subframeCounter := m_subframeCounter s + 1\<rparr>) m_mac now availableRbs
            = (spsGrants, s1)"
    and dyn: "ScheduleDynamicGrants s1 m_mac
                (fold (\<lambda>grant remainingRbs. if 0 < remainingRbs then remainingRbs - 1 else 0)
                   spsGrants availableRbs) = (dynamicGrants, m')"
    and gs: "gs = spsGrants @ dynamicGrants"
    by (auto simp: SPS_ScheduleUl_def Let_def split: prod.splits)
  from sps have a: "length spsGrants \<le> unat availableRbs"
    using sps_grants_loop_budget [of 0 availableRbs] by (fastforce simp: ScheduleSpsGrants_def)
  from ScheduleDynamicGrants_budget [OF dyn]
  have "length dynamicGrants \<le> unat availableRbs - length spsGrants"
    by (simp add: remaining_rbs)
  with a gs show ?thesis by simp
qed

lemma RR_ScheduleDl_budget:
  "RR_ScheduleDl s m_mac availableRbs = (as, s', m') \<Longrightarrow> length as \<le> unat availableRbs"
  by (auto simp: RR_ScheduleDl_def Let_def dest: word_nonzero_unat
           split: option.splits prod.splits if_splits)

lemma RR_ScheduleUl_budget:
  "RR_ScheduleUl s m_mac availableRbs = (gs, s', m') \<Longrightarrow> length gs \<le> unat availableRbs"
  by (auto simp: RR_ScheduleUl_def Let_def dest: word_nonzero_unat
           split: option.splits prod.splits if_splits)

lemma CC_ScheduleDl_budget:
  "CC_ScheduleDl srt m_mac availableRbs = Inr (as, m') \<Longrightarrow> length as \<le> unat availableRbs"
  by (auto simp: CC_ScheduleDl_def Let_def dest: word_nonzero_unat
           split: option.splits prod.splits if_splits list.splits)

lemma CC_ScheduleUl_budget:
  "CC_ScheduleUl srt m_mac availableRbs = Inr (gs, m') \<Longrightarrow> length gs \<le> unat availableRbs"
  by (auto simp: CC_ScheduleUl_def Let_def dest: word_nonzero_unat
           split: option.splits prod.splits if_splits list.splits)



lemma candidates_known:
  "set (map fst (filter P ctxs)) \<subseteq> fst ` set ctxs"
  by auto

lemma CC_ScheduleDl_total:
  assumes "std_sort_contract srt"
  shows "\<exists>as m'. CC_ScheduleDl srt m_mac availableRbs = Inr (as, m')"
proof (cases m_mac)
  case None
  then show ?thesis by (simp add: CC_ScheduleDl_def)
next
  case (Some mac)
  define cands where "cands = map fst (filter
      (\<lambda>(r, context). connected context \<and> m_dlTxQueues mac r \<noteq> []) (m_ueContexts mac))"
  show ?thesis
  proof (cases "availableRbs = 0 \<or> cands = []")
    case True
    with Some show ?thesis by (auto simp: CC_ScheduleDl_def Let_def cands_def)
  next
    case False
    then have ne: "cands \<noteq> []" by simp
    have "set cands \<subseteq> fst ` set (m_ueContexts mac)" unfolding cands_def by (rule candidates_known)
    from SortByPriority_front [OF assms ne this]
    obtain r rest c where "SortByPriority srt (Some mac) cands = r # rest"
      "map_of (m_ueContexts mac) r = Some c" by blast
    with Some False show ?thesis
      by (auto simp: CC_ScheduleDl_def Let_def cands_def GetUeContext_def split: prod.splits)
  qed
qed

lemma CC_ScheduleUl_total:
  assumes "std_sort_contract srt"
  shows "\<exists>gs m'. CC_ScheduleUl srt m_mac availableRbs = Inr (gs, m')"
proof (cases m_mac)
  case None
  then show ?thesis by (simp add: CC_ScheduleUl_def)
next
  case (Some mac)
  define cands where "cands = map fst (filter
      (\<lambda>(r, context). connected context \<and> (srReceived context \<or> 0 < totalBufferSize context))
      (m_ueContexts mac))"
  show ?thesis
  proof (cases "availableRbs = 0 \<or> cands = []")
    case True
    with Some show ?thesis by (auto simp: CC_ScheduleUl_def Let_def cands_def)
  next
    case False
    then have ne: "cands \<noteq> []" by simp
    have "set cands \<subseteq> fst ` set (m_ueContexts mac)" unfolding cands_def by (rule candidates_known)
    from SortByPriority_front [OF assms ne this]
    obtain r rest c where "SortByPriority srt (Some mac) cands = r # rest"
      "map_of (m_ueContexts mac) r = Some c" by blast
    with Some False show ?thesis
      by (auto simp: CC_ScheduleUl_def Let_def cands_def GetUeContext_def)
  qed
qed


text \<open>
  Claim C4 (budget invariant). For each of the three policies, in every state and for
  every value of \<open>availableRbs\<close>, one \<open>ScheduleDl\<close> call and one \<open>ScheduleUl\<close> call
  return (given a \<open>std::sort\<close> that keeps its contract, which only the coverage-class
  policy calls) and the number of assignments, respectively grants, returned is at most
  \<open>availableRbs\<close>.
\<close>

theorem schedule_budget:
  assumes "std_sort_contract srt"
  shows "(\<exists>as sch' m'. ScheduleDl srt sch m_mac availableRbs = Inr (as, sch', m') \<and>
            length as \<le> unat availableRbs)
       \<and> (\<exists>gs sch' m'. ScheduleUl srt sch m_mac now availableRbs = Inr (gs, sch', m') \<and>
            length gs \<le> unat availableRbs)"
proof (cases sch)
  case (RoundRobin s)
  obtain as s1 m1 where dl: "RR_ScheduleDl s m_mac availableRbs = (as, s1, m1)"
    by (metis prod_cases3)
  obtain gs s2 m2 where ul: "RR_ScheduleUl s m_mac availableRbs = (gs, s2, m2)"
    by (metis prod_cases3)
  from RR_ScheduleDl_budget [OF dl] RR_ScheduleUl_budget [OF ul] dl ul RoundRobin
  show ?thesis by (simp add: ScheduleDl_def ScheduleUl_def)
next
  case CoverageClass
  from CC_ScheduleDl_total [OF assms] obtain as m1 where
    dl: "CC_ScheduleDl srt m_mac availableRbs = Inr (as, m1)" by blast
  from CC_ScheduleUl_total [OF assms] obtain gs m2 where
    ul: "CC_ScheduleUl srt m_mac availableRbs = Inr (gs, m2)" by blast
  from CC_ScheduleDl_budget [OF dl] CC_ScheduleUl_budget [OF ul] dl ul CoverageClass
  show ?thesis by (simp add: ScheduleDl_def ScheduleUl_def)
next
  case (Sps s)
  obtain as m1 where dl: "SPS_ScheduleDl m_mac availableRbs = (as, m1)"
    by (cases "SPS_ScheduleDl m_mac availableRbs")
  obtain gs s2 m2 where ul: "SPS_ScheduleUl s m_mac now availableRbs = (gs, s2, m2)"
    by (metis prod_cases3)
  from SPS_ScheduleDl_budget [OF dl] SPS_ScheduleUl_budget [OF ul] dl ul Sps
  show ?thesis by (simp add: ScheduleDl_def ScheduleUl_def)
qed

theorem schedule_budget_witness:
  "std_sort_contract stable_priority_sort
   \<and> (\<exists>as sch' m'. ScheduleDl stable_priority_sort CoverageClass (Some mac_three_dl) 1 =
          Inr (as, sch', m') \<and> length as \<le> 1)
   \<and> (\<exists>gs sch' m'. ScheduleUl stable_priority_sort CoverageClass (Some mac_three_dl) 0 1 =
          Inr (gs, sch', m') \<and> length gs \<le> 1)"
  using schedule_budget [OF stable_priority_sort_contract, of CoverageClass "Some mac_three_dl" 1 0]
        stable_priority_sort_contract
  by simp


subsection \<open>Coverage-class priority\<close>


lemma map_sorted_distinct: "map_sorted xs \<Longrightarrow> distinct (map fst xs)"
  by (simp add: map_sorted_def strict_sorted_iff)

lemma map_of_member: "map_sorted xs \<Longrightarrow> (k, v) \<in> set xs \<Longrightarrow> map_of xs k = Some v"
  by (simp add: map_sorted_distinct)

text \<open>The front of the sorted candidate list, for candidates picked by a test on the entries.\<close>

lemma selected_lowest_priority:
  assumes contract: "std_sort_contract srt"
    and sorted: "map_sorted (m_ueContexts mac)"
    and cand: "(r0, c0) \<in> set (m_ueContexts mac)" "P (r0, c0)"
  shows "\<exists>r rest c. SortByPriority srt (Some mac) (map fst (filter P (m_ueContexts mac))) = r # rest \<and>
           (r, c) \<in> set (m_ueContexts mac) \<and> P (r, c) \<and> GetUeContext (Some mac) r = Some c \<and>
           (\<forall>(r', c') \<in> set (m_ueContexts mac). P (r', c') \<longrightarrow>
              GetPriority (coverageClass c) \<le> GetPriority (coverageClass c'))"
proof -
  define cands where "cands = map fst (filter P (m_ueContexts mac))"
  from cand have ne: "cands \<noteq> []" by (auto simp: cands_def filter_empty_conv)
  have known: "set cands \<subseteq> fst ` set (m_ueContexts mac)" by (auto simp: cands_def)
  from SortByPriority_front [OF contract ne known] obtain r rest c where
    front: "SortByPriority srt (Some mac) cands = r # rest" and rin: "r \<in> set cands"
    and c: "map_of (m_ueContexts mac) r = Some c"
    and low: "\<forall>r' \<in> set cands. \<forall>c'. map_of (m_ueContexts mac) r' = Some c' \<longrightarrow>
              GetPriority (coverageClass c) \<le> GetPriority (coverageClass c')"
    by blast
  from rin obtain c1 where c1: "(r, c1) \<in> set (m_ueContexts mac)" "P (r, c1)"
    by (auto simp: cands_def)
  from map_of_member [OF sorted c1(1)] c have "c1 = c" by simp
  with c1 have sel: "(r, c) \<in> set (m_ueContexts mac)" "P (r, c)" by simp_all
  have "GetPriority (coverageClass c) \<le> GetPriority (coverageClass c')"
    if "(r', c') \<in> set (m_ueContexts mac)" "P (r', c')" for r' c'
  proof -
    from that have "r' \<in> set cands" by (force simp: cands_def)
    moreover from map_of_member [OF sorted that(1)] have "map_of (m_ueContexts mac) r' = Some c'" .
    ultimately show ?thesis using low by blast
  qed
  with front sel c show ?thesis unfolding cands_def GetUeContext_def by auto
qed




lemma mac_mixed_contexts:
  "m_ueContexts mac_mixed =
     [(1, NbIotUeContext_new\<lparr>rnti := 1, coverageClass := CE_LEVEL_0, connected := True,
                               totalBufferSize := 110, srReceived := True\<rparr>),
      (2, NbIotUeContext_new\<lparr>rnti := 2, coverageClass := CE_LEVEL_2, connected := True,
                               totalBufferSize := 110, srReceived := True\<rparr>),
      (3, NbIotUeContext_new\<lparr>rnti := 3, coverageClass := CE_LEVEL_1, connected := True,
                               totalBufferSize := 110, srReceived := True\<rparr>)]"
  by (simp add: mac_mixed_def TransmitSdu_def ProcessBsr_def AddUe_def NbIotEnbMac_new_def
                NbIotUeContext_new_def)

lemma mac_mixed_queues: "m_dlTxQueues mac_mixed 2 \<noteq> []"
  by (simp add: mac_mixed_def TransmitSdu_def ProcessBsr_def AddUe_def NbIotEnbMac_new_def)

lemma mac_mixed_sorted: "map_sorted (m_ueContexts mac_mixed)"
  by (simp add: mac_mixed_contexts map_sorted_def)

text \<open>
  Claim C5 (coverage-class ordering), as the code has it. The priority comes from the
  coverage class alone (\<open>CE_LEVEL_2\<close> is 1, \<open>CE_LEVEL_1\<close> is 2, \<open>CE_LEVEL_0\<close> is 3).
  With at least one resource unit, if some connected endpoint has pending uplink data
  the uplink call returns exactly one grant, and its endpoint is a connected candidate
  whose priority value is the lowest among all candidates; every downlink assignment
  returned is likewise for a connected candidate of lowest priority value. Which of
  several candidates of equal lowest priority is served is whatever \<open>std::sort\<close> puts in
  front, about which the code says nothing.
\<close>


theorem cc_serves_lowest_priority:
  assumes contract: "std_sort_contract srt"
    and sorted: "map_sorted (m_ueContexts mac)"
    and avail: "availableRbs \<noteq> 0"
  shows "((\<exists>(r, c) \<in> set (m_ueContexts mac). connected c \<and> ul_pending c) \<longrightarrow>
           (\<exists>g m' c. CC_ScheduleUl srt (Some mac) availableRbs = Inr ([g], m') \<and>
              (ul_rnti g, c) \<in> set (m_ueContexts mac) \<and> connected c \<and> ul_pending c \<and>
              (\<forall>(r', c') \<in> set (m_ueContexts mac). connected c' \<and> ul_pending c' \<longrightarrow>
                 GetPriority (coverageClass c) \<le> GetPriority (coverageClass c'))))
       \<and> (\<forall>as m'. CC_ScheduleDl srt (Some mac) availableRbs = Inr (as, m') \<longrightarrow>
           (\<forall>a \<in> set as. \<exists>c. (dl_rnti a, c) \<in> set (m_ueContexts mac) \<and> connected c \<and>
              m_dlTxQueues mac (dl_rnti a) \<noteq> [] \<and>
              (\<forall>(r', c') \<in> set (m_ueContexts mac). connected c' \<and> m_dlTxQueues mac r' \<noteq> [] \<longrightarrow>
                 GetPriority (coverageClass c) \<le> GetPriority (coverageClass c'))))
       \<and> GetPriority CE_LEVEL_2 = 1 \<and> GetPriority CE_LEVEL_1 = 2 \<and> GetPriority CE_LEVEL_0 = 3"
proof -
  let ?Pul = "\<lambda>(r, context). connected context \<and> (srReceived context \<or> 0 < totalBufferSize context)"
  let ?Pdl = "\<lambda>(r, context). connected context \<and> m_dlTxQueues mac r \<noteq> []"
  have ul: "\<exists>g m' c. CC_ScheduleUl srt (Some mac) availableRbs = Inr ([g], m') \<and>
              (ul_rnti g, c) \<in> set (m_ueContexts mac) \<and> connected c \<and> ul_pending c \<and>
              (\<forall>(r', c') \<in> set (m_ueContexts mac). connected c' \<and> ul_pending c' \<longrightarrow>
                 GetPriority (coverageClass c) \<le> GetPriority (coverageClass c'))"
    if "\<exists>(r, c) \<in> set (m_ueContexts mac). connected c \<and> ul_pending c"
  proof -
    from that obtain r0 c0 where cand: "(r0, c0) \<in> set (m_ueContexts mac)" "?Pul (r0, c0)"
      by (auto simp: ul_pending_def)
    from selected_lowest_priority [of srt mac r0 c0 ?Pul, OF contract sorted cand]
    obtain r rest c where
      front: "SortByPriority srt (Some mac) (map fst (filter ?Pul (m_ueContexts mac))) = r # rest"
      and sel: "(r, c) \<in> set (m_ueContexts mac)" "?Pul (r, c)" "GetUeContext (Some mac) r = Some c"
      and low: "\<forall>(r', c') \<in> set (m_ueContexts mac). ?Pul (r', c') \<longrightarrow>
                  GetPriority (coverageClass c) \<le> GetPriority (coverageClass c')"
      by blast
    from cand have ne: "map fst (filter ?Pul (m_ueContexts mac)) \<noteq> []"
      by (auto simp: filter_empty_conv)
    from front sel(3) ne avail
    have "\<exists>g m'. CC_ScheduleUl srt (Some mac) availableRbs = Inr ([g], m') \<and> ul_rnti g = r"
      by (simp add: CC_ScheduleUl_def Let_def)
    with sel low show ?thesis by (fastforce simp: ul_pending_def)
  qed
  have dl: "\<exists>c. (dl_rnti a, c) \<in> set (m_ueContexts mac) \<and> connected c \<and>
              m_dlTxQueues mac (dl_rnti a) \<noteq> [] \<and>
              (\<forall>(r', c') \<in> set (m_ueContexts mac). connected c' \<and> m_dlTxQueues mac r' \<noteq> [] \<longrightarrow>
                 GetPriority (coverageClass c) \<le> GetPriority (coverageClass c'))"
    if res: "CC_ScheduleDl srt (Some mac) availableRbs = Inr (as, m')" and a: "a \<in> set as" for as m' a
  proof (cases "map fst (filter ?Pdl (m_ueContexts mac)) = []")
    case True
    with res avail a show ?thesis by (simp add: CC_ScheduleDl_def Let_def)
  next
    case False
    then obtain r0 c0 where cand: "(r0, c0) \<in> set (m_ueContexts mac)" "?Pdl (r0, c0)"
      by (auto simp: filter_empty_conv)
    from selected_lowest_priority [of srt mac r0 c0 ?Pdl, OF contract sorted cand]
    obtain r rest c where
      front: "SortByPriority srt (Some mac) (map fst (filter ?Pdl (m_ueContexts mac))) = r # rest"
      and sel: "(r, c) \<in> set (m_ueContexts mac)" "?Pdl (r, c)" "GetUeContext (Some mac) r = Some c"
      and low: "\<forall>(r', c') \<in> set (m_ueContexts mac). ?Pdl (r', c') \<longrightarrow>
                  GetPriority (coverageClass c) \<le> GetPriority (coverageClass c')"
      by blast
    from res front sel(3) False avail a have "dl_rnti a = r"
      by (auto simp: CC_ScheduleDl_def Let_def split: prod.splits if_splits)
    with sel low show ?thesis by fastforce
  qed
  from ul dl show ?thesis by simp
qed

theorem cc_serves_lowest_priority_witness:
  "map ul_rnti (fst (projr (CC_ScheduleUl stable_priority_sort (Some mac_mixed) 1))) = [2]
   \<and> set (map dl_rnti (fst (projr (CC_ScheduleDl stable_priority_sort (Some mac_mixed) 1)))) \<subseteq> {2}"
proof -
  note T = cc_serves_lowest_priority [OF stable_priority_sort_contract mac_mixed_sorted, of 1]
  have one: "(1 :: u8) \<noteq> 0" by simp
  have lowest: "r = 2"
    if "(r, c) \<in> set (m_ueContexts mac_mixed)"
      "\<forall>(r', c') \<in> set (m_ueContexts mac_mixed). connected c' \<and> Q r' c' \<longrightarrow>
          GetPriority (coverageClass c) \<le> GetPriority (coverageClass c')"
      "Q 2 (the (map_of (m_ueContexts mac_mixed) 2))" for r c Q
    using that by (auto simp: mac_mixed_contexts NbIotUeContext_new_def word_le_nat_alt)
  from T [OF one] have "\<exists>(r, c) \<in> set (m_ueContexts mac_mixed). connected c \<and> ul_pending c \<Longrightarrow>
      \<exists>g m' c. CC_ScheduleUl stable_priority_sort (Some mac_mixed) 1 = Inr ([g], m') \<and>
        (ul_rnti g, c) \<in> set (m_ueContexts mac_mixed) \<and>
        (\<forall>(r', c') \<in> set (m_ueContexts mac_mixed). connected c' \<and> ul_pending c' \<longrightarrow>
           GetPriority (coverageClass c) \<le> GetPriority (coverageClass c'))"
    by blast
  moreover have "\<exists>(r, c) \<in> set (m_ueContexts mac_mixed). connected c \<and> ul_pending c"
    by (simp add: mac_mixed_contexts NbIotUeContext_new_def ul_pending_def)
  ultimately obtain g m' c where
    ul: "CC_ScheduleUl stable_priority_sort (Some mac_mixed) 1 = Inr ([g], m')"
    and c: "(ul_rnti g, c) \<in> set (m_ueContexts mac_mixed)"
    and low: "\<forall>(r', c') \<in> set (m_ueContexts mac_mixed). connected c' \<and> ul_pending c' \<longrightarrow>
           GetPriority (coverageClass c) \<le> GetPriority (coverageClass c')"
    by blast
  have "ul_rnti g = 2"
    by (rule lowest [OF c low]) (simp add: mac_mixed_contexts NbIotUeContext_new_def ul_pending_def)
  with ul have first: "map ul_rnti (fst (projr (CC_ScheduleUl stable_priority_sort (Some mac_mixed) 1))) = [2]"
    by simp
  from CC_ScheduleDl_total [OF stable_priority_sort_contract] obtain as m1 where
    dl: "CC_ScheduleDl stable_priority_sort (Some mac_mixed) 1 = Inr (as, m1)" by blast
  have "dl_rnti a = 2" if "a \<in> set as" for a
  proof -
    from T [OF one] dl that obtain c where
      c: "(dl_rnti a, c) \<in> set (m_ueContexts mac_mixed)"
      and low: "\<forall>(r', c') \<in> set (m_ueContexts mac_mixed).
           connected c' \<and> m_dlTxQueues mac_mixed r' \<noteq> [] \<longrightarrow>
           GetPriority (coverageClass c) \<le> GetPriority (coverageClass c')"
      by blast
    show ?thesis
      by (rule lowest [of _ c "\<lambda>r c. m_dlTxQueues mac_mixed r \<noteq> []", OF c low]) (rule mac_mixed_queues)
  qed
  with dl have "set (map dl_rnti (fst (projr (CC_ScheduleDl stable_priority_sort (Some mac_mixed) 1)))) \<subseteq> {2}"
    by auto
  with first show ?thesis by simp
qed


subsection \<open>Invariants of the containers\<close>

lemma fst_map_assign: "set (map fst (map_assign k v xs)) = insert k (set (map fst xs))"
proof (induction xs)
  case Nil
  then show ?case by simp
next
  case (Cons x xs)
  obtain k' v' where x: "x = (k', v')" by (cases x)
  consider "k < k'" | "k = k'" | "\<not> k < k'" "k \<noteq> k'" by blast
  then show ?case
  proof cases
    case 1
    with x show ?thesis by simp
  next
    case 2
    with x show ?thesis by simp
  next
    case 3
    with x have "map_assign k v (x # xs) = (k', v') # map_assign k v xs" by simp
    with Cons.IH x show ?thesis by (simp add: insert_commute)
  qed
qed

lemma map_sorted_map_assign: "map_sorted xs \<Longrightarrow> map_sorted (map_assign k v xs)"
proof (induction xs)
  case Nil
  then show ?case by (simp add: map_sorted_def)
next
  case (Cons x xs)
  obtain k' v' where x: "x = (k', v')" by (cases x)
  from Cons.prems x have tail: "map_sorted xs" and above: "\<forall>y \<in> set (map fst xs). k' < y"
    by (simp_all add: map_sorted_def)
  show ?case
  proof (cases "k < k'")
    case True
    with Cons.prems x above show ?thesis by (auto simp: map_sorted_def)
  next
    case False
    show ?thesis
    proof (cases "k = k'")
      case True
      with Cons.prems x show ?thesis by (simp add: map_sorted_def)
    next
      case neq: False
      with False have "k' < k" by simp
      with above have "\<forall>y \<in> set (map fst (map_assign k v xs)). k' < y"
        unfolding fst_map_assign by simp
      with Cons.IH [OF tail] False neq x show ?thesis by (simp add: map_sorted_def)
    qed
  qed
qed

lemma fst_map_modify: "map fst (map_modify k f xs) = map fst xs"
  by (induction xs) auto

lemma map_sorted_map_modify: "map_sorted xs \<Longrightarrow> map_sorted (map_modify k f xs)"
  by (simp add: map_sorted_def fst_map_modify)

lemma map_sorted_map_erase: "map_sorted xs \<Longrightarrow> map_sorted (map_erase k xs)"
  unfolding map_sorted_def map_erase_def
  by (induction xs) auto

lemma contexts_stay_sorted:
  "map_sorted (m_ueContexts NbIotEnbMac_new)"
  "map_sorted (m_ueContexts mac) \<Longrightarrow> map_sorted (m_ueContexts (AddUe mac r cc))"
  "map_sorted (m_ueContexts mac) \<Longrightarrow> map_sorted (m_ueContexts (RemoveUe mac r))"
  "map_sorted (m_ueContexts mac) \<Longrightarrow> map_sorted (m_ueContexts (TransmitSdu mac r lcid p))"
  "map_sorted (m_ueContexts mac) \<Longrightarrow> map_sorted (m_ueContexts (ProcessBsr mac r))"
  "map_sorted (m_ueContexts mac) \<Longrightarrow> map_sorted (m_ueContexts (ProcessSchedulingRequest mac r))"
  by (simp_all add: NbIotEnbMac_new_def AddUe_def RemoveUe_def TransmitSdu_def ProcessBsr_def
        ProcessSchedulingRequest_def map_sorted_map_assign map_sorted_map_modify
        map_sorted_map_erase)
     (simp add: map_sorted_def)

lemma list_all_map_assign:
  "list_all P xs \<Longrightarrow> P (k, v) \<Longrightarrow> list_all P (map_assign k v xs)"
  by (induction xs) auto

lemma list_all_map_modify:
  "list_all P xs \<Longrightarrow> (\<And>v. P (k, v) \<Longrightarrow> P (k, f v)) \<Longrightarrow> list_all P (map_modify k f xs)"
  by (induction xs) auto

lemma sps_configs_stay_wf:
  "sps_configs_wf (m_spsConfigs NbIotSpsScheduler_new)"
  "sps_configs_wf (m_spsConfigs s) \<Longrightarrow>
     sps_configs_wf (m_spsConfigs (ConfigureSps s now r interval n))"
  "sps_configs_wf (m_spsConfigs s) \<Longrightarrow> sps_configs_wf (m_spsConfigs (ActivateSps s now r))"
  "sps_configs_wf (m_spsConfigs s) \<Longrightarrow> sps_configs_wf (m_spsConfigs (DeactivateSps s r))"
proof -
  show "sps_configs_wf (m_spsConfigs NbIotSpsScheduler_new)"
    by (simp add: sps_configs_wf_def NbIotSpsScheduler_new_def map_sorted_def)
  have conf: "sps_configs_wf (m_spsConfigs (ConfigureSps s now r interval n))"
    if "sps_configs_wf (m_spsConfigs s)" for s :: NbIotSpsScheduler and now r interval n
    using that
    by (auto simp: sps_configs_wf_def ConfigureSps_def Let_def map_sorted_map_assign
             intro!: list_all_map_assign split: prod.splits)
  have modify: "sps_configs_wf (map_modify r f cfgs)"
    if "sps_configs_wf cfgs" "\<And>c. sps_rnti (f c) = sps_rnti c"
    for cfgs r and f :: "NbIotSpsConfig \<Rightarrow> NbIotSpsConfig"
    using that by (auto simp: sps_configs_wf_def map_sorted_map_modify intro!: list_all_map_modify)
  show "sps_configs_wf (m_spsConfigs (ConfigureSps s now r interval n))"
    if "sps_configs_wf (m_spsConfigs s)" using that by (rule conf)
  show "sps_configs_wf (m_spsConfigs (ActivateSps s now r))" if "sps_configs_wf (m_spsConfigs s)"
    using that conf [OF that] by (auto simp: ActivateSps_def Let_def intro!: modify)
  show "sps_configs_wf (m_spsConfigs (DeactivateSps s r))" if "sps_configs_wf (m_spsConfigs s)"
    using that by (auto simp: DeactivateSps_def intro!: modify)
qed

lemma harq_pool_sized:
  "harq_sized NbIotHarqManager_new"
  "harq_sized (SetNumProcesses m num)"
  "harq_sized m \<Longrightarrow> harq_sized (SetMaxTransmissions m maxTx)"
  "harq_sized m \<Longrightarrow> ProcessAck m processId = Inr m' \<Longrightarrow> harq_sized m'"
  "harq_sized m \<Longrightarrow> ProcessNack m processId = Inr (b, m') \<Longrightarrow> harq_sized m'"
  "harq_sized m \<Longrightarrow> ResetProcess m processId = Inr m' \<Longrightarrow> harq_sized m'"
  by (auto simp: harq_sized_def NbIotHarqManager_new_unfold SetNumProcesses_def resize_def
        SetMaxTransmissions_def ProcessAck_def ProcessNack_def ResetProcess_def Let_def
        split: if_splits)

lemma harq_sized_in_range:
  "harq_sized m \<Longrightarrow> processId < m_numProcesses m \<Longrightarrow> unat processId < length (m_processes m)"
  by (simp add: harq_sized_def word_less_nat_alt)

lemma harq_sized_never_faults:
  "harq_sized m \<Longrightarrow>
   (\<exists>m'. ProcessAck m processId = Inr m') \<and> (\<exists>r. ProcessNack m processId = Inr r) \<and>
   (\<exists>m'. ResetProcess m processId = Inr m') \<and> (\<exists>i. GetAvailableProcess m = Inr i)"
  by (auto simp: harq_sized_def ProcessAck_def ProcessNack_def ResetProcess_def
        GetAvailableProcess_def Let_def word_less_nat_alt word_le_nat_alt split: option.splits)


subsection \<open>SPS periodic allocation\<close>


lemma map_modify_nth:
  "distinct (map fst xs) \<Longrightarrow> i < length xs \<Longrightarrow> xs ! i = (k, v) \<Longrightarrow>
   map_modify k f xs = xs[i := (k, f v)]"
proof (induction xs arbitrary: i)
  case Nil
  then show ?case by simp
next
  case (Cons x xs)
  obtain k' v' where x: "x = (k', v')" by (cases x)
  show ?case
  proof (cases i)
    case 0
    with Cons.prems x show ?thesis by simp
  next
    case (Suc i')
    with Cons.prems have i': "i' < length xs" "xs ! i' = (k, v)" by simp_all
    then have "(k, v) \<in> set xs" by (metis nth_mem)
    then have "k \<in> fst ` set xs" by force
    with Cons.prems(1) x have "k' \<noteq> k" by auto
    with Cons.IH [OF _ i'] Cons.prems(1) x Suc show ?thesis by simp
  qed
qed

lemma sps_configs_wf_nth:
  assumes "sps_configs_wf cfgs" "i < length cfgs"
  shows "sps_rnti (snd (cfgs ! i)) = fst (cfgs ! i)"
proof -
  from assms have "(\<lambda>(k, c). sps_rnti c = k) (cfgs ! i)"
    by (simp add: sps_configs_wf_def list_all_length)
  then show ?thesis by (simp add: case_prod_unfold)
qed

lemma sps_configs_wf_keys:
  assumes "sps_configs_wf cfgs" "i < length cfgs" "j < length cfgs" "fst (cfgs ! i) = fst (cfgs ! j)"
  shows "i = j"
proof -
  from assms(1) have "distinct (map fst cfgs)"
    by (simp add: sps_configs_wf_def map_sorted_distinct)
  with assms(2-4) show ?thesis by (auto simp: distinct_conv_nth)
qed

lemma sps_account_configs:
  assumes wf: "sps_configs_wf (m_spsConfigs s)" and i: "i < length (m_spsConfigs s)"
  shows "m_spsConfigs (sps_account t m_mac s (snd (m_spsConfigs s ! i))) =
           (m_spsConfigs s)[i := (fst (m_spsConfigs s ! i),
              (snd (m_spsConfigs s ! i))\<lparr>nextAllocation := t + spsInterval (snd (m_spsConfigs s ! i))\<rparr>)]"
proof -
  from wf have d: "distinct (map fst (m_spsConfigs s))"
    by (simp add: sps_configs_wf_def map_sorted_distinct)
  have k: "sps_rnti (snd (m_spsConfigs s ! i)) = fst (m_spsConfigs s ! i)"
    by (rule sps_configs_wf_nth [OF wf i])
  have "map_modify (fst (m_spsConfigs s ! i)) f (m_spsConfigs s)
          = (m_spsConfigs s)[i := (fst (m_spsConfigs s ! i), f (snd (m_spsConfigs s ! i)))]" for f
    by (rule map_modify_nth [OF d i]) simp
  then show ?thesis by (simp add: sps_account_def UpdateNextAllocation_def Let_def k)
qed

lemma sps_configs_wf_update:
  assumes wf: "sps_configs_wf cfgs" and i: "i < length cfgs"
  shows "sps_configs_wf (cfgs[i := (fst (cfgs ! i), (snd (cfgs ! i))\<lparr>nextAllocation := x\<rparr>)])"
proof -
  have keys: "map fst (cfgs[i := (fst (cfgs ! i), (snd (cfgs ! i))\<lparr>nextAllocation := x\<rparr>)]) = map fst cfgs"
    using i by (simp add: map_update list_update_same_conv)
  have "list_all (\<lambda>(k, c). sps_rnti c = k) (cfgs[i := (fst (cfgs ! i), (snd (cfgs ! i))\<lparr>nextAllocation := x\<rparr>)])"
    using wf i sps_configs_wf_nth [OF wf i]
    by (auto simp: sps_configs_wf_def list_all_length nth_list_update)
  with wf keys show ?thesis by (simp add: sps_configs_wf_def map_sorted_def)
qed



lemma sps_grants_loop_spec:
  assumes wf: "sps_configs_wf (m_spsConfigs s)"
    and idx: "distinct idx" "\<forall>i \<in> set idx. i < length (m_spsConfigs s)"
    and res: "sps_grants_loop t avail m_mac idx used s = (gs, s')"
  shows "length (m_spsConfigs s') = length (m_spsConfigs s) \<and>
         (\<forall>j < length (m_spsConfigs s).
            fst (m_spsConfigs s' ! j) = fst (m_spsConfigs s ! j) \<and>
            (if fst (m_spsConfigs s ! j) \<in> ul_rnti ` set gs
             then j \<in> set idx \<and> active (snd (m_spsConfigs s ! j)) \<and>
                  nextAllocation (snd (m_spsConfigs s ! j)) \<le> t \<and>
                  snd (m_spsConfigs s' ! j) =
                    (snd (m_spsConfigs s ! j))
                      \<lparr>nextAllocation := t + spsInterval (snd (m_spsConfigs s ! j))\<rparr>
             else m_spsConfigs s' ! j = m_spsConfigs s ! j))"
  using assms
proof (induction idx arbitrary: used s gs)
  case Nil
  then show ?case by simp
next
  case (Cons i idx)
  let ?cfgs = "m_spsConfigs s"
  let ?c = "snd (?cfgs ! i)"
  from Cons.prems have i: "i < length ?cfgs" and inot: "i \<notin> set idx"
    and didx: "distinct idx" and bidx: "\<forall>j \<in> set idx. j < length ?cfgs" by simp_all
  note wf = Cons.prems(1)
  consider (stop) "avail \<le> used"
    | (skip) "\<not> avail \<le> used" "\<not> (active ?c \<and> nextAllocation ?c \<le> t)"
    | (fire) "\<not> avail \<le> used" "active ?c" "nextAllocation ?c \<le> t"
    by blast
  then show ?case
  proof cases
    case stop
    with Cons.prems(4) show ?thesis by simp
  next
    case skip
    with Cons.prems(4) have "sps_grants_loop t avail m_mac idx used s = (gs, s')"
      by (auto simp: Let_def split: if_splits)
    from Cons.IH [OF wf didx bidx this] show ?thesis by (simp split: if_splits)
  next
    case fire
    define s2 where "s2 = sps_account t m_mac s ?c"
    define c2 where "c2 = ?c\<lparr>nextAllocation := t + spsInterval ?c\<rparr>"
    have cfgs2: "m_spsConfigs s2 = ?cfgs[i := (fst (?cfgs ! i), c2)]"
      unfolding s2_def c2_def by (rule sps_account_configs [OF wf i])
    have wf2: "sps_configs_wf (m_spsConfigs s2)"
      unfolding cfgs2 c2_def by (rule sps_configs_wf_update [OF wf i])
    have len2: "length (m_spsConfigs s2) = length ?cfgs" by (simp add: cfgs2)
    from bidx have bidx2: "\<forall>j \<in> set idx. j < length (m_spsConfigs s2)" by (simp add: len2)
    from Cons.prems(4) fire obtain gs' where
      rest: "sps_grants_loop t avail m_mac idx (used + 1) s2 = (gs', s')"
      and gs: "gs = sps_grant ?c # gs'"
      by (auto simp: Let_def s2_def split: prod.splits)
    note IH = Cons.IH [OF wf2 didx bidx2 rest]
    have ki: "ul_rnti (sps_grant ?c) = fst (?cfgs ! i)"
      by (simp add: sps_grant_def sps_configs_wf_nth [OF wf i])
    have len: "length (m_spsConfigs s') = length ?cfgs" using IH len2 by simp
    have "fst (m_spsConfigs s' ! j) = fst (?cfgs ! j) \<and>
            (if fst (?cfgs ! j) \<in> ul_rnti ` set gs
             then j \<in> set (i # idx) \<and> active (snd (?cfgs ! j)) \<and>
                  nextAllocation (snd (?cfgs ! j)) \<le> t \<and>
                  snd (m_spsConfigs s' ! j) =
                    (snd (?cfgs ! j))\<lparr>nextAllocation := t + spsInterval (snd (?cfgs ! j))\<rparr>
             else m_spsConfigs s' ! j = ?cfgs ! j)" if j: "j < length ?cfgs" for j
    proof (cases "j = i")
      case True
      from IH i len2 have at_i: "fst (m_spsConfigs s' ! i) = fst (m_spsConfigs s2 ! i)"
        "(if fst (m_spsConfigs s2 ! i) \<in> ul_rnti ` set gs' then i \<in> set idx
          else m_spsConfigs s' ! i = m_spsConfigs s2 ! i)"
        by (simp_all split: if_splits)
      from at_i(2) inot have "m_spsConfigs s' ! i = m_spsConfigs s2 ! i" by (simp split: if_splits)
      with i have "m_spsConfigs s' ! i = (fst (?cfgs ! i), c2)" by (simp add: cfgs2)
      with True fire ki gs show ?thesis by (simp add: c2_def)
    next
      case False
      with j have same: "m_spsConfigs s2 ! j = ?cfgs ! j" by (simp add: cfgs2)
      from False sps_configs_wf_keys [OF wf i j] have "fst (?cfgs ! i) \<noteq> fst (?cfgs ! j)" by auto
      with ki gs have mem: "fst (?cfgs ! j) \<in> ul_rnti ` set gs \<longleftrightarrow> fst (?cfgs ! j) \<in> ul_rnti ` set gs'"
        by auto
      from IH j len2 have "fst (m_spsConfigs s' ! j) = fst (m_spsConfigs s2 ! j) \<and>
            (if fst (m_spsConfigs s2 ! j) \<in> ul_rnti ` set gs'
             then j \<in> set idx \<and> active (snd (m_spsConfigs s2 ! j)) \<and>
                  nextAllocation (snd (m_spsConfigs s2 ! j)) \<le> t \<and>
                  snd (m_spsConfigs s' ! j) =
                    (snd (m_spsConfigs s2 ! j))
                      \<lparr>nextAllocation := t + spsInterval (snd (m_spsConfigs s2 ! j))\<rparr>
             else m_spsConfigs s' ! j = m_spsConfigs s2 ! j)"
        by simp
      then show ?thesis unfolding same mem by (simp split: if_splits)
    qed
    with len show ?thesis by blast
  qed
qed


text \<open>
  Claim C6 (SPS next allocation), as the code has it. \<open>UpdateNextAllocation\<close> sets
  \<open>nextAllocation\<close> to \<open>Simulator::Now()\<close> plus the interval, not to the old
  \<open>nextAllocation\<close> plus the interval. So in one \<open>ScheduleSpsGrants\<close> pass at time
  \<open>now\<close>, for every configuration (stored under its own RNTI in a well-formed map):
  if a grant for its RNTI is emitted, the configuration was active with
  \<open>nextAllocation \<le> now\<close> and afterwards differs only in \<open>nextAllocation\<close>, which is
  \<open>now + spsInterval\<close>; otherwise the configuration is unchanged. With a non-negative
  interval \<open>nextAllocation\<close> never moves backward.
\<close>

theorem sps_next_allocation_from_now:
  assumes wf: "sps_configs_wf (m_spsConfigs s)"
    and res: "ScheduleSpsGrants s m_mac now availableRbs = (grants, s')"
    and i: "i < length (m_spsConfigs s)"
  shows "length (m_spsConfigs s') = length (m_spsConfigs s)
       \<and> fst (m_spsConfigs s' ! i) = fst (m_spsConfigs s ! i)
       \<and> (if fst (m_spsConfigs s ! i) \<in> ul_rnti ` set grants
          then active (snd (m_spsConfigs s ! i)) \<and> nextAllocation (snd (m_spsConfigs s ! i)) \<le> now \<and>
               snd (m_spsConfigs s' ! i) =
                 (snd (m_spsConfigs s ! i))
                   \<lparr>nextAllocation := now + spsInterval (snd (m_spsConfigs s ! i))\<rparr>
          else m_spsConfigs s' ! i = m_spsConfigs s ! i)
       \<and> (0 \<le> spsInterval (snd (m_spsConfigs s ! i)) \<longrightarrow>
            nextAllocation (snd (m_spsConfigs s ! i)) \<le> nextAllocation (snd (m_spsConfigs s' ! i)))"
proof -
  have "distinct [0..<length (m_spsConfigs s)]"
    "\<forall>j \<in> set [0..<length (m_spsConfigs s)]. j < length (m_spsConfigs s)" by simp_all
  from sps_grants_loop_spec [OF wf this res [unfolded ScheduleSpsGrants_def]] i
  have len: "length (m_spsConfigs s') = length (m_spsConfigs s)"
    and key: "fst (m_spsConfigs s' ! i) = fst (m_spsConfigs s ! i)"
    and upd: "if fst (m_spsConfigs s ! i) \<in> ul_rnti ` set grants
          then active (snd (m_spsConfigs s ! i)) \<and> nextAllocation (snd (m_spsConfigs s ! i)) \<le> now \<and>
               snd (m_spsConfigs s' ! i) =
                 (snd (m_spsConfigs s ! i))
                   \<lparr>nextAllocation := now + spsInterval (snd (m_spsConfigs s ! i))\<rparr>
          else m_spsConfigs s' ! i = m_spsConfigs s ! i"
    by (simp_all split: if_splits)
  have "nextAllocation (snd (m_spsConfigs s ! i)) \<le> nextAllocation (snd (m_spsConfigs s' ! i))"
    if "0 \<le> spsInterval (snd (m_spsConfigs s ! i))"
    using upd that by (auto split: if_splits)
  with len key upd show ?thesis by simp
qed

lemma sps_two_schedule: "sps_schedule sps_two = [(1, True, 20, 100), (2, True, 20, 100)]"
  by code_simp

lemma sps_two_wf: "sps_configs_wf (m_spsConfigs sps_two)"
  by code_simp

theorem sps_next_allocation_from_now_witness:
  "map ul_rnti (fst (ScheduleSpsGrants sps_two (Some mac_three) 100 1)) = [1]
   \<and> nextAllocation (snd (m_spsConfigs (snd (ScheduleSpsGrants sps_two (Some mac_three) 100 1)) ! 0)) = 120
   \<and> m_spsConfigs (snd (ScheduleSpsGrants sps_two (Some mac_three) 100 1)) ! 1 = m_spsConfigs sps_two ! 1"
proof -
  define r where "r = ScheduleSpsGrants sps_two (Some mac_three) 100 1"
  have res: "ScheduleSpsGrants sps_two (Some mac_three) 100 1 = (fst r, snd r)" by (simp add: r_def)
  have grants: "map ul_rnti (fst r) = [1]" unfolding r_def by code_simp
  then have img: "ul_rnti ` set (fst r) = {1}" by (metis list.set_map list.simps(15) empty_set)
  have len: "length (m_spsConfigs sps_two) = 2" by code_simp
  have k0: "fst (m_spsConfigs sps_two ! 0) = 1" and k1: "fst (m_spsConfigs sps_two ! 1) = 2"
    and int0: "spsInterval (snd (m_spsConfigs sps_two ! 0)) = 20" by code_simp+
  from sps_next_allocation_from_now [OF sps_two_wf res, of 0] len k0 img int0
  have "nextAllocation (snd (m_spsConfigs (snd r) ! 0)) = 120" by simp
  moreover from sps_next_allocation_from_now [OF sps_two_wf res, of 1] len k1 img
  have "m_spsConfigs (snd r) ! 1 = m_spsConfigs sps_two ! 1" by simp
  ultimately show ?thesis using grants by (simp add: r_def)
qed


text \<open>
  Claim C6 as stated says that a firing advances \<open>nextAllocation\<close> by exactly one
  interval, so that it stays at the activation time plus a whole number of intervals.
  Endpoints 1 and 2 are both activated at time 100 with interval 20 and there is one
  resource unit per subframe: endpoint 1 is granted at 100, endpoint 2 has to wait for
  the next subframe, is granted at 101, and its next allocation becomes 121: 21 after
  its previous value and after its activation time.
\<close>

theorem sps_next_allocation_drifts:
  "sps_schedule sps_two = [(1, True, 20, 100), (2, True, 20, 100)]
   \<and> sps_ul_calls [100, 101] sps_two (Some mac_three) =
       [([1], [(1, True, 20, 120), (2, True, 20, 100)]),
        ([2], [(1, True, 20, 120), (2, True, 20, 121)])]"
  by code_simp

subsection \<open>What an uplink scheduling decision writes to the contexts\<close>


text \<open>Two context maps that differ at most in the request flags.\<close>

lemma map_of_map_modify:
  "map_of (map_modify k f xs) k' = (if k' = k then map_option f (map_of xs k) else map_of xs k')"
  by (induction xs) auto

lemma map_modify_only_flag:
  "map (\<lambda>(r, c). (r, c\<lparr>srReceived := False\<rparr>)) (map_modify k (\<lambda>c. c\<lparr>srReceived := b\<rparr>) xs)
     = map (\<lambda>(r, c). (r, c\<lparr>srReceived := False\<rparr>)) xs"
  by (induction xs) auto

lemma rr_ul_loop_only_flag:
  "rr_ul_loop ctxs = (g, ctxs') \<Longrightarrow>
   map (\<lambda>(r, c). (r, c\<lparr>srReceived := False\<rparr>)) ctxs'
     = map (\<lambda>(r, c). (r, c\<lparr>srReceived := False\<rparr>)) ctxs"
proof (induction ctxs arbitrary: g ctxs')
  case Nil
  then show ?case by simp
next
  case (Cons x ctxs)
  obtain r c where x: "x = (r, c)" by (cases x)
  show ?case
  proof (cases "connected c \<and> (srReceived c \<or> 0 < totalBufferSize c)")
    case True
    with Cons.prems x show ?thesis by (auto simp: Let_def)
  next
    case False
    obtain g1 rest' where rest: "rr_ul_loop ctxs = (g1, rest')" by (cases "rr_ul_loop ctxs")
    with Cons.prems x False have "ctxs' = (r, c) # rest'" by (auto split: if_splits)
    with Cons.IH [OF rest] x show ?thesis by simp
  qed
qed


lemma dynamic_grants_loop_only_flag:
  "dynamic_grants_loop avail rs used mac = (gs, mac') \<Longrightarrow>
   map (\<lambda>(r, c). (r, c\<lparr>srReceived := False\<rparr>)) (m_ueContexts mac')
     = map (\<lambda>(r, c). (r, c\<lparr>srReceived := False\<rparr>)) (m_ueContexts mac)"
proof (induction rs arbitrary: used mac gs)
  case Nil
  then show ?case by simp
next
  case (Cons r rs)
  show ?case
  proof (cases "avail \<le> used")
    case True
    with Cons.prems show ?thesis by simp
  next
    case False
    show ?thesis
    proof (cases "map_of (m_ueContexts mac) r")
      case None
      with Cons.prems False Cons.IH [of used mac gs] show ?thesis by simp
    next
      case (Some ueContext)
      define mac1 where "mac1 = mac\<lparr>m_ueContexts := map_modify r
                            (\<lambda>c. c\<lparr>srReceived := False\<rparr>) (m_ueContexts mac)\<rparr>"
      from Cons.prems False Some obtain gs' where
        "dynamic_grants_loop avail rs (used + 1) mac1 = (gs', mac')"
        by (auto simp: Let_def mac1_def split: prod.splits)
      from Cons.IH [OF this] show ?thesis by (simp add: mac1_def map_modify_only_flag)
    qed
  qed
qed




lemma sps_dl_loop_contexts:
  "sps_dl_loop avail rs used mac = (as, mac') \<Longrightarrow> m_ueContexts mac' = m_ueContexts mac"
proof (induction rs arbitrary: used mac as)
  case Nil
  then show ?case by simp
next
  case (Cons r rs)
  show ?case
  proof (cases "avail \<le> used")
    case True
    with Cons.prems show ?thesis by simp
  next
    case False
    show ?thesis
    proof (cases "m_dlTxQueues mac r = []")
      case True
      with Cons.prems False Cons.IH [of used mac as] show ?thesis by simp
    next
      case nonempty: False
      from Cons.prems False nonempty obtain as' where
        "sps_dl_loop avail rs (used + 1)
           (mac\<lparr>m_dlTxQueues := (m_dlTxQueues mac)(r := drop 8 (m_dlTxQueues mac r))\<rparr>) = (as', mac')"
        by (auto simp: Let_def split: prod.splits)
      from Cons.IH [OF this] show ?thesis by simp
    qed
  qed
qed

lemma ScheduleDl_contexts:
  "ScheduleDl srt sch (Some mac) avail = Inr (as, sch', m_mac') \<Longrightarrow>
   map_option m_ueContexts m_mac' = Some (m_ueContexts mac)"
proof (cases sch)
  case (RoundRobin s)
  assume "ScheduleDl srt sch (Some mac) avail = Inr (as, sch', m_mac')"
  with RoundRobin show ?thesis
    by (auto simp: ScheduleDl_def RR_ScheduleDl_def Let_def
             split: prod.splits option.splits if_splits)
next
  case CoverageClass
  assume "ScheduleDl srt sch (Some mac) avail = Inr (as, sch', m_mac')"
  with CoverageClass show ?thesis
    by (auto simp: ScheduleDl_def CC_ScheduleDl_def Let_def
             split: prod.splits option.splits if_splits sum.splits list.splits)
next
  case (Sps s)
  assume "ScheduleDl srt sch (Some mac) avail = Inr (as, sch', m_mac')"
  with Sps show ?thesis
    by (auto simp: ScheduleDl_def SPS_ScheduleDl_def sps_dl_loop_contexts split: prod.splits)
qed


lemma CC_ScheduleUl_contexts:
  assumes "CC_ScheduleUl srt (Some mac) avail = Inr (gs, m_mac')"
  shows "\<exists>mac'. m_mac' = Some mac' \<and>
           map (\<lambda>(r, c). (r, c\<lparr>srReceived := False\<rparr>)) (m_ueContexts mac')
             = map (\<lambda>(r, c). (r, c\<lparr>srReceived := False\<rparr>)) (m_ueContexts mac) \<and>
           (\<forall>g \<in> set gs. \<exists>c'. map_of (m_ueContexts mac') (ul_rnti g) = Some c' \<and> \<not> srReceived c')"
  using assms
  by (auto simp: CC_ScheduleUl_def Let_def map_modify_only_flag map_of_map_modify GetUeContext_def
           split: if_splits list.splits option.splits)

lemma SPS_ScheduleUl_contexts:
  assumes "SPS_ScheduleUl s (Some mac) now avail = (gs, s', m_mac')"
  shows "\<exists>mac'. m_mac' = Some mac' \<and>
           map (\<lambda>(r, c). (r, c\<lparr>srReceived := False\<rparr>)) (m_ueContexts mac')
             = map (\<lambda>(r, c). (r, c\<lparr>srReceived := False\<rparr>)) (m_ueContexts mac)"
  using assms
  by (auto simp: SPS_ScheduleUl_def ScheduleDynamicGrants_def Let_def
           dest: dynamic_grants_loop_only_flag split: prod.splits if_splits)





lemma connected_only_flag:
  fixes xs ys :: "(u16 \<times> NbIotUeContext) list"
  assumes "map (\<lambda>(r, c). (r, c\<lparr>srReceived := False\<rparr>)) ys
             = map (\<lambda>(r, c). (r, c\<lparr>srReceived := False\<rparr>)) xs"
  shows "list_all (\<lambda>(r, c). connected c) ys = list_all (\<lambda>(r, c). connected c) xs"
proof -
  have "list_all (\<lambda>(r, c). connected c) zs
          = list_all (\<lambda>(r, c). connected c) (map (\<lambda>(r, c). (r, c\<lparr>srReceived := False\<rparr>)) zs)"
    for zs :: "(u16 \<times> NbIotUeContext) list"
    by (induction zs) auto
  from this [of ys] this [of xs] assms show ?thesis by simp
qed

lemma ScheduleUl_only_flag:
  assumes "ScheduleUl srt sch (Some mac) now avail = Inr (gs, sch', m_mac')"
  shows "\<exists>mac'. m_mac' = Some mac' \<and>
           map (\<lambda>(r, c). (r, c\<lparr>srReceived := False\<rparr>)) (m_ueContexts mac')
             = map (\<lambda>(r, c). (r, c\<lparr>srReceived := False\<rparr>)) (m_ueContexts mac)"
proof (cases sch)
  case (RoundRobin s)
  obtain g ctxs' where loop: "rr_ul_loop (m_ueContexts mac) = (g, ctxs')"
    by (cases "rr_ul_loop (m_ueContexts mac)")
  from rr_ul_loop_only_flag [OF loop] assms RoundRobin loop show ?thesis
    by (auto simp: ScheduleUl_def RR_ScheduleUl_def split: if_splits option.splits prod.splits)
next
  case CoverageClass
  with assms have "CC_ScheduleUl srt (Some mac) avail = Inr (gs, m_mac')"
    by (auto simp: ScheduleUl_def split: sum.splits)
  from CC_ScheduleUl_contexts [OF this] show ?thesis by blast
next
  case (Sps s)
  with assms obtain s' where "SPS_ScheduleUl s (Some mac) now avail = (gs, s', m_mac')"
    by (auto simp: ScheduleUl_def split: prod.splits)
  from SPS_ScheduleUl_contexts [OF this] show ?thesis by blast
qed

lemma transmit_dl_pdu_contexts:
  "transmit_dl_pdu mac a = Inr mac' \<Longrightarrow> m_ueContexts mac' = m_ueContexts mac"
  by (auto simp: transmit_dl_pdu_def Let_def split: sum.splits)

lemma TransmitDlPdus_contexts:
  "TransmitDlPdus mac as = Inr mac' \<Longrightarrow> m_ueContexts mac' = m_ueContexts mac"
proof (induction as arbitrary: mac)
  case Nil
  then show ?case by simp
next
  case (Cons a as)
  then obtain mac1 where a: "transmit_dl_pdu mac a = Inr mac1" and rest: "TransmitDlPdus mac1 as = Inr mac'"
    by (auto split: sum.splits)
  from Cons.IH [OF rest] transmit_dl_pdu_contexts [OF a] show ?case by simp
qed

lemma DoScheduleDl_contexts:
  assumes "DoScheduleDl srt mac = Inr mac'"
  shows "m_ueContexts mac' = m_ueContexts mac"
proof (cases "m_scheduler mac")
  case None
  with assms show ?thesis by (simp add: DoScheduleDl_def)
next
  case (Some sch)
  with assms obtain as sch' m_mac' where
    dl: "ScheduleDl srt sch (Some mac) 1 = Inr (as, sch', m_mac')"
    and rest: "(if as \<noteq> [] then TransmitDlPdus ((mac_of mac m_mac')\<lparr>m_scheduler := Some sch'\<rparr>) as
                else Inr ((mac_of mac m_mac')\<lparr>m_scheduler := Some sch'\<rparr>)) = Inr mac'"
    by (auto simp: DoScheduleDl_def Let_def split: sum.splits prod.splits)
  from ScheduleDl_contexts [OF dl] have "m_ueContexts (mac_of mac m_mac') = m_ueContexts mac"
    by (auto simp: mac_of_def)
  with rest show ?thesis
    by (cases "as = []") (auto dest: TransmitDlPdus_contexts)
qed

lemma DoScheduleUl_contexts:
  assumes "DoScheduleUl srt mac now = Inr mac'"
  shows "map (\<lambda>(r, c). (r, c\<lparr>srReceived := False\<rparr>)) (m_ueContexts mac')
           = map (\<lambda>(r, c). (r, c\<lparr>srReceived := False\<rparr>)) (m_ueContexts mac)"
proof (cases "m_scheduler mac")
  case None
  with assms show ?thesis by (simp add: DoScheduleUl_def)
next
  case (Some sch)
  with assms obtain gs sch' m_mac' where
    ul: "ScheduleUl srt sch (Some mac) now 1 = Inr (gs, sch', m_mac')"
    and rest: "mac' = (if gs \<noteq> [] then SendUlGrants ((mac_of mac m_mac')\<lparr>m_scheduler := Some sch'\<rparr>) gs
                else (mac_of mac m_mac')\<lparr>m_scheduler := Some sch'\<rparr>)"
    by (auto simp: DoScheduleUl_def Let_def split: sum.splits prod.splits if_splits)
  from ScheduleUl_only_flag [OF ul] obtain mac1 where "m_mac' = Some mac1"
    "map (\<lambda>(r, c). (r, c\<lparr>srReceived := False\<rparr>)) (m_ueContexts mac1)
       = map (\<lambda>(r, c). (r, c\<lparr>srReceived := False\<rparr>)) (m_ueContexts mac)" by blast
  with rest show ?thesis by (simp add: mac_of_def SendUlGrants_def)
qed

lemma DoSchedule_contexts:
  assumes "DoSchedule srt mac now = Inr mac'"
  shows "map (\<lambda>(r, c). (r, c\<lparr>srReceived := False\<rparr>)) (m_ueContexts mac')
           = map (\<lambda>(r, c). (r, c\<lparr>srReceived := False\<rparr>)) (m_ueContexts mac)"
proof -
  from assms obtain mac1 where dl: "DoScheduleDl srt mac = Inr mac1"
    and ul: "DoScheduleUl srt mac1 now = Inr mac'"
    by (auto simp: DoSchedule_def split: sum.splits)
  from DoScheduleUl_contexts [OF ul] DoScheduleDl_contexts [OF dl] show ?thesis by simp
qed























subsection \<open>Round-robin order on the uplink\<close>



text \<open>The uplink result of the round-robin scheduler does not depend on its cursors.\<close>

lemma RR_ScheduleUl_ignores_cursor:
  "fst (RR_ScheduleUl s m_mac avail) = fst (RR_ScheduleUl s' m_mac avail)"
  "snd (snd (RR_ScheduleUl s m_mac avail)) = snd (snd (RR_ScheduleUl s' m_mac avail))"
  by (auto simp: RR_ScheduleUl_def split: option.splits prod.splits)


text \<open>
  The downlink path of the round-robin scheduler starts each scan just after
  \<open>m_lastDlRnti\<close> (through \<open>GetNextRnti\<close>): with data always queued for the three
  endpoints, four calls serve 1, 2, 3 and 1 again.
\<close>

lemma rr_downlink_cycles:
  "rr_dl_calls 4 NbIotRoundRobinScheduler_new (Some mac_three_dl) = [[1], [2], [3], [1]]"
  by code_simp


text \<open>
  Claim C1 (round-robin fairness on the uplink). The claim asks that with endpoints
  A, B, C (RNTIs 1, 2, 3) all connected and always with pending uplink data, four
  \<open>ScheduleUl\<close> calls with one resource unit grant A, B, C, A. The uplink loop of the
  round-robin scheduler starts at the beginning of the map on every call: it writes
  \<open>m_lastUlRnti\<close> but never reads it, and never calls \<open>GetNextRnti\<close>. In the state
  \<open>mac_three\<close> all four calls grant RNTI 1.
\<close>

theorem rr_uplink_always_first:
  "rr_ul_calls 4 NbIotRoundRobinScheduler_new (Some mac_three) = [[1], [1], [1], [1]]"
  by code_simp


subsection \<open>Connected endpoints only\<close>


lemma GetNextRnti_connected:
  assumes "GetNextRnti (Some mac) lastRnti dl = r" and "r \<noteq> 0"
  shows "\<exists>c. (r, c) \<in> set (m_ueContexts mac) \<and> connected c"
proof -
  define P where "P = (\<lambda>(k, c). connected c \<and>
                                 (if dl then m_dlTxQueues mac k \<noteq> [] else ul_pending c))"
  define scan where "scan = dropWhile (\<lambda>(k, c). k \<le> lastRnti) (m_ueContexts mac)
                 @ takeWhile (\<lambda>(k, c). k \<le> lastRnti) (m_ueContexts mac)"
  have "GetNextRnti (Some mac) lastRnti dl =
          (if m_ueContexts mac = [] then 0
           else case find P scan of None \<Rightarrow> 0 | Some (k, c) \<Rightarrow> k)"
    unfolding GetNextRnti_def Let_def P_def scan_def by simp
  with assms obtain c where found: "find P scan = Some (r, c)"
    by (auto split: if_splits option.splits)
  then have "(r, c) \<in> set scan" and "P (r, c)"
    by (auto simp: find_Some_iff)
  moreover have "set scan \<subseteq> set (m_ueContexts mac)"
    unfolding scan_def by (auto dest: set_dropWhileD set_takeWhileD)
  ultimately show ?thesis by (auto simp: P_def)
qed

lemma rr_ul_loop_connected:
  "rr_ul_loop ctxs = (Some grant, ctxs') \<Longrightarrow>
   \<exists>c. (ul_rnti grant, c) \<in> set ctxs \<and> connected c"
proof (induction ctxs arbitrary: ctxs')
  case Nil
  then show ?case by simp
next
  case (Cons x ctxs)
  obtain r c where x: "x = (r, c)" by (cases x)
  show ?case
  proof (cases "connected c \<and> (srReceived c \<or> 0 < totalBufferSize c)")
    case True
    with Cons.prems x show ?thesis by (auto simp: Let_def)
  next
    case False
    obtain g1 rest' where rest: "rr_ul_loop ctxs = (g1, rest')" by (cases "rr_ul_loop ctxs")
    with Cons.prems x False have "g1 = Some grant" by (auto split: if_splits)
    from Cons.IH [OF rest [unfolded this]] show ?thesis by auto
  qed
qed

text \<open>
  The round-robin and the coverage-class scheduler return only endpoints whose context
  is connected.
\<close>

lemma round_robin_selects_connected:
  assumes sorted: "map_sorted (m_ueContexts mac)"
  shows "RR_ScheduleDl s (Some mac) avail = (as, s', m') \<Longrightarrow> a \<in> set as \<Longrightarrow>
           \<exists>c. map_of (m_ueContexts mac) (dl_rnti a) = Some c \<and> connected c"
    and "RR_ScheduleUl s (Some mac) avail = (gs, s', m') \<Longrightarrow> g \<in> set gs \<Longrightarrow>
           \<exists>c. map_of (m_ueContexts mac) (ul_rnti g) = Some c \<and> connected c"
proof -
  assume res: "RR_ScheduleDl s (Some mac) avail = (as, s', m')" and a: "a \<in> set as"
  define r where "r = GetNextRnti (Some mac) (m_lastDlRnti s) True"
  from res a have "r \<noteq> 0" and "dl_rnti a = r"
    by (auto simp: RR_ScheduleDl_def Let_def r_def split: if_splits option.splits prod.splits)
  with GetNextRnti_connected [of mac "m_lastDlRnti s" True r] obtain c where
    "(dl_rnti a, c) \<in> set (m_ueContexts mac)" "connected c" by (auto simp: r_def)
  with map_of_member [OF sorted] show "\<exists>c. map_of (m_ueContexts mac) (dl_rnti a) = Some c \<and> connected c"
    by blast
next
  assume res: "RR_ScheduleUl s (Some mac) avail = (gs, s', m')" and g: "g \<in> set gs"
  then obtain ctxs' where "rr_ul_loop (m_ueContexts mac) = (Some g, ctxs')"
    by (auto simp: RR_ScheduleUl_def split: if_splits option.splits prod.splits)
  from rr_ul_loop_connected [OF this] map_of_member [OF sorted]
  show "\<exists>c. map_of (m_ueContexts mac) (ul_rnti g) = Some c \<and> connected c" by blast
qed

lemma coverage_class_selects_connected:
  assumes sorted: "map_sorted (m_ueContexts mac)" and contract: "std_sort_contract srt"
  shows "CC_ScheduleDl srt (Some mac) avail = Inr (as, m') \<Longrightarrow> a \<in> set as \<Longrightarrow>
           \<exists>c. map_of (m_ueContexts mac) (dl_rnti a) = Some c \<and> connected c"
    and "CC_ScheduleUl srt (Some mac) avail = Inr (gs, m') \<Longrightarrow> g \<in> set gs \<Longrightarrow>
           \<exists>c. map_of (m_ueContexts mac) (ul_rnti g) = Some c \<and> connected c"
proof -
  let ?Pdl = "\<lambda>(r, context). connected context \<and> m_dlTxQueues mac r \<noteq> []"
  let ?Pul = "\<lambda>(r, context). connected context \<and> (srReceived context \<or> 0 < totalBufferSize context)"
  have front: "\<exists>r rest c. SortByPriority srt (Some mac) (map fst (filter P (m_ueContexts mac))) = r # rest \<and>
                 P (r, c) \<and> GetUeContext (Some mac) r = Some c"
    if "map fst (filter P (m_ueContexts mac)) \<noteq> []" for P
  proof -
    from that obtain r0 c0 where "(r0, c0) \<in> set (m_ueContexts mac)" "P (r0, c0)"
      by (auto simp: filter_empty_conv)
    from selected_lowest_priority [of srt mac r0 c0 P, OF contract sorted this] show ?thesis by blast
  qed
  {
    assume res: "CC_ScheduleDl srt (Some mac) avail = Inr (as, m')" and a: "a \<in> set as"
    then have ne: "map fst (filter ?Pdl (m_ueContexts mac)) \<noteq> []"
      by (auto simp: CC_ScheduleDl_def Let_def split: if_splits)
    from front [OF ne] obtain r rest c where
      "SortByPriority srt (Some mac) (map fst (filter ?Pdl (m_ueContexts mac))) = r # rest"
      "?Pdl (r, c)" "GetUeContext (Some mac) r = Some c" by blast
    with res a ne show "\<exists>c. map_of (m_ueContexts mac) (dl_rnti a) = Some c \<and> connected c"
      by (auto simp: CC_ScheduleDl_def Let_def GetUeContext_def split: if_splits prod.splits)
  }
  {
    assume res: "CC_ScheduleUl srt (Some mac) avail = Inr (gs, m')" and g: "g \<in> set gs"
    then have ne: "map fst (filter ?Pul (m_ueContexts mac)) \<noteq> []"
      by (auto simp: CC_ScheduleUl_def Let_def split: if_splits)
    from front [OF ne] obtain r rest c where
      "SortByPriority srt (Some mac) (map fst (filter ?Pul (m_ueContexts mac))) = r # rest"
      "?Pul (r, c)" "GetUeContext (Some mac) r = Some c" by blast
    with res g ne show "\<exists>c. map_of (m_ueContexts mac) (ul_rnti g) = Some c \<and> connected c"
      by (auto simp: CC_ScheduleUl_def Let_def GetUeContext_def split: if_splits)
  }
qed


lemma list_all_map_erase: "list_all P xs \<Longrightarrow> list_all P (map_erase k xs)"
  by (induction xs) (auto simp: map_erase_def)

lemma connected_ProcessBsr:
  "list_all (\<lambda>(r, c). connected c) (m_ueContexts mac) \<Longrightarrow>
   list_all (\<lambda>(r, c). connected c) (m_ueContexts (ProcessBsr mac r))"
  by (auto simp: ProcessBsr_def intro!: list_all_map_modify)

lemma connected_AddUe:
  "list_all (\<lambda>(r, c). connected c) (m_ueContexts mac) \<Longrightarrow>
   list_all (\<lambda>(r, c). connected c) (m_ueContexts (AddUe mac r cc))"
  by (auto simp: AddUe_def intro!: list_all_map_assign)

lemma connected_ReceivePdu:
  assumes "list_all (\<lambda>(r, c). connected c) (m_ueContexts mac)"
  shows "list_all (\<lambda>(r, c). connected c) (m_ueContexts (ReceivePdu mac now r sdus))"
proof -
  define step where "step = (\<lambda>mac (lcid :: u8, packets :: Packet list).
              if (lcid = 29 \<or> lcid = 30) \<and> packets \<noteq> [] then ProcessBsr mac r else mac)"
  have loop: "list_all (\<lambda>(r, c). connected c) (m_ueContexts (foldl step m sdus))"
    if "list_all (\<lambda>(r, c). connected c) (m_ueContexts m)" for m
    using that
  proof (induction sdus arbitrary: m)
    case Nil
    then show ?case by simp
  next
    case (Cons x sdus)
    obtain lcid packets where x: "x = (lcid, packets)" by (cases x)
    from Cons.prems have "list_all (\<lambda>(r, c). connected c) (m_ueContexts (step m x))"
      by (auto simp: step_def x connected_ProcessBsr)
    from Cons.IH [OF this] show ?case by simp
  qed
  have "list_all (\<lambda>(r, c). connected c)
          (m_ueContexts (mac\<lparr>m_ueContexts := map_modify r (\<lambda>c. c\<lparr>lastActivity := now\<rparr>) (m_ueContexts mac)\<rparr>))"
    using assms by (auto intro!: list_all_map_modify)
  from loop [OF this] show ?thesis by (simp add: ReceivePdu_def step_def)
qed

text \<open>
  Every context the MAC holds is connected: the constructor's map is empty, \<open>AddUe\<close>
  sets the flag in the context it creates, and no call clears it.
\<close>

lemma contexts_stay_connected:
  "list_all (\<lambda>(r, c). connected c) (m_ueContexts NbIotEnbMac_new)"
  "list_all (\<lambda>(r, c). connected c) (m_ueContexts mac) \<Longrightarrow> perform srt now mac call = Inr mac' \<Longrightarrow>
     list_all (\<lambda>(r, c). connected c) (m_ueContexts mac')"
proof -
  show "list_all (\<lambda>(r, c). connected c) (m_ueContexts NbIotEnbMac_new)"
    by (simp add: NbIotEnbMac_new_def)
  assume inv: "list_all (\<lambda>(r, c). connected c) (m_ueContexts mac)"
    and step: "perform srt now mac call = Inr mac'"
  show "list_all (\<lambda>(r, c). connected c) (m_ueContexts mac')"
  proof (cases call)
    case Call_SubframeIndication
    with step have "DoSchedule srt mac now = Inr mac'" by simp
    from connected_only_flag [OF DoSchedule_contexts [OF this]] inv show ?thesis by simp
  next
    case (Call_ReceivePdu r sdus)
    with step inv connected_ReceivePdu show ?thesis by auto
  next
    case (Call_GenerateRar cc)
    have "m_ueContexts (GenerateRar mac cc)
            = m_ueContexts (AddUe (snd (AllocateRnti mac)) (m_nextRnti mac) cc)"
      by (simp add: GenerateRar_def AllocateRnti_def Let_def)
    moreover have "list_all (\<lambda>(r, c). connected c) (m_ueContexts (snd (AllocateRnti mac)))"
      using inv by (simp add: AllocateRnti_def)
    ultimately show ?thesis using step Call_GenerateRar connected_AddUe by auto
  next
    case (Call_ProcessHarqFeedback r harqId ack)
    with step inv show ?thesis
      by (auto simp: ProcessHarqFeedback_def split: option.splits sum.splits)
  qed (use step inv in \<open>auto simp: SetPhy_def SetScheduler_def TransmitSdu_def
         ProcessSchedulingRequest_def AllocateRnti_def RemoveUe_def on_sps_def
         connected_ProcessBsr connected_AddUe
         intro!: list_all_map_modify list_all_map_erase
         split: option.splits NbIotScheduler.splits\<close>)
qed

lemma sps_dl_loop_known:
  "sps_dl_loop avail rs used mac = (as, mac') \<Longrightarrow> a \<in> set as \<Longrightarrow> dl_rnti a \<in> set rs"
proof (induction rs arbitrary: used mac as)
  case Nil
  then show ?case by simp
next
  case (Cons r rs)
  show ?case
  proof (cases "avail \<le> used")
    case True
    with Cons.prems show ?thesis by simp
  next
    case False
    show ?thesis
    proof (cases "m_dlTxQueues mac r = []")
      case True
      with Cons.prems False Cons.IH [of used mac as] show ?thesis by simp
    next
      case nonempty: False
      from Cons.prems(1) False nonempty obtain a0 as' where
        rest: "sps_dl_loop avail rs (used + 1)
           (mac\<lparr>m_dlTxQueues := (m_dlTxQueues mac)(r := drop 8 (m_dlTxQueues mac r))\<rparr>) = (as', mac')"
        and as: "as = a0 # as'" and a0: "dl_rnti a0 = r"
        by (auto simp: Let_def split: prod.splits)
      with Cons.prems(2) Cons.IH [OF rest] show ?thesis by auto
    qed
  qed
qed

lemma dynamic_grants_loop_known:
  "dynamic_grants_loop avail rs used mac = (gs, mac') \<Longrightarrow> g \<in> set gs \<Longrightarrow>
   ul_rnti g \<in> fst ` set (m_ueContexts mac)"
proof (induction rs arbitrary: used mac gs)
  case Nil
  then show ?case by simp
next
  case (Cons r rs)
  show ?case
  proof (cases "avail \<le> used")
    case True
    with Cons.prems show ?thesis by simp
  next
    case False
    show ?thesis
    proof (cases "map_of (m_ueContexts mac) r")
      case None
      with Cons.prems False Cons.IH [of used mac gs] show ?thesis by simp
    next
      case (Some ueContext)
      define mac1 where "mac1 = mac\<lparr>m_ueContexts := map_modify r
                            (\<lambda>c. c\<lparr>srReceived := False\<rparr>) (m_ueContexts mac)\<rparr>"
      from Cons.prems(1) False Some obtain g0 gs' where
        rest: "dynamic_grants_loop avail rs (used + 1) mac1 = (gs', mac')"
        and gs: "gs = g0 # gs'" and g0: "ul_rnti g0 = r"
        by (auto simp: Let_def mac1_def split: prod.splits)
      have keys: "fst ` set (m_ueContexts mac1) = fst ` set (m_ueContexts mac)"
        using fst_map_modify [of r "\<lambda>c. c\<lparr>srReceived := False\<rparr>" "m_ueContexts mac"]
        by (metis mac1_def NbIotEnbMac.select_convs(1) NbIotEnbMac.surjective
                  NbIotEnbMac.update_convs(1) set_map)
      from Some have "r \<in> fst ` set (m_ueContexts mac)" by (auto dest: map_of_SomeD intro: rev_image_eqI)
      with Cons.prems(2) gs g0 Cons.IH [OF rest] keys show ?thesis by auto
    qed
  qed
qed

text \<open>
  The SPS scheduler never reads \<open>connected\<close>. Its downlink call and its dynamic uplink
  pass walk the context map, so what they return has a context, and a connected one when
  all contexts are.
\<close>

lemma sps_walks_contexts:
  assumes inv: "list_all (\<lambda>(r, c). connected c) (m_ueContexts mac)"
  shows "SPS_ScheduleDl (Some mac) avail = (as, m') \<Longrightarrow> a \<in> set as \<Longrightarrow>
           \<exists>c. map_of (m_ueContexts mac) (dl_rnti a) = Some c \<and> connected c"
    and "ScheduleDynamicGrants s (Some mac) avail = (gs, m') \<Longrightarrow> g \<in> set gs \<Longrightarrow>
           \<exists>c. map_of (m_ueContexts mac) (ul_rnti g) = Some c \<and> connected c"
proof -
  have known: "\<exists>c. map_of (m_ueContexts mac) r = Some c \<and> connected c"
    if "r \<in> fst ` set (m_ueContexts mac)" for r
  proof -
    from that obtain c where "map_of (m_ueContexts mac) r = Some c"
      by (cases "map_of (m_ueContexts mac) r") (auto simp: map_of_eq_None_iff)
    moreover from this have "(r, c) \<in> set (m_ueContexts mac)" by (rule map_of_SomeD)
    with inv have "connected c" by (auto simp: list_all_iff)
    ultimately show ?thesis by blast
  qed
  {
    assume "SPS_ScheduleDl (Some mac) avail = (as, m')" and a: "a \<in> set as"
    then obtain mac' where "sps_dl_loop avail (map fst (m_ueContexts mac)) 0 mac = (as, mac')"
      by (auto simp: SPS_ScheduleDl_def split: prod.splits)
    from sps_dl_loop_known [OF this a] known
    show "\<exists>c. map_of (m_ueContexts mac) (dl_rnti a) = Some c \<and> connected c" by auto
  }
  {
    assume "ScheduleDynamicGrants s (Some mac) avail = (gs, m')" and g: "g \<in> set gs"
    then obtain rs mac' where "dynamic_grants_loop avail rs 0 mac = (gs, mac')"
      by (auto simp: ScheduleDynamicGrants_def Let_def split: prod.splits if_splits)
    from dynamic_grants_loop_known [OF this g] known
    show "\<exists>c. map_of (m_ueContexts mac) (ul_rnti g) = Some c \<and> connected c" by auto
  }
qed


text \<open>
  Claim C3 (no scheduling of an endpoint that is not connected). An endpoint is
  connected while the MAC holds a context for it, and by \<open>contexts_stay_connected\<close> no
  context the MAC holds ever has \<open>connected = false\<close>. The round-robin and
  coverage-class schedulers return only endpoints from the context map, and test the
  flag; so do the downlink call and the dynamic pass of the SPS scheduler, without the
  test. The periodic pass of the SPS scheduler takes its endpoints from the SPS
  configuration table, which \<open>RemoveUe\<close> does not touch: after the RRC has released
  endpoint 1 (state \<open>mac_released\<close>, in which endpoints 2 and 3 are connected and
  waiting), the SPS uplink call at time 120 gives the only resource unit to RNTI 1, for
  which the MAC holds no context; the round-robin and coverage-class schedulers grant
  RNTI 2.
\<close>

theorem sps_grants_released_endpoint:
  "map (\<lambda>(r, c). (r, connected c, ul_pending c)) (m_ueContexts mac_released)
     = [(2, True, True), (3, True, True)]
   \<and> GetUeContext (Some mac_released) 1 = None
   \<and> IsSpsActive sps_two 1
   \<and> map ul_rnti (fst (SPS_ScheduleUl sps_two (Some mac_released) 120 1)) = [1]
   \<and> map ul_rnti (fst (RR_ScheduleUl NbIotRoundRobinScheduler_new (Some mac_released) 1)) = [2]
   \<and> map ul_rnti (fst (projr (CC_ScheduleUl libstdcxx_priority_sort (Some mac_released) 1))) = [2]"
  by code_simp


subsection \<open>The downlink path and HARQ process availability\<close>


lemma collect_sdus_split:
  "collect_sdus q remaining = (sdus, q') \<Longrightarrow> map snd q = sdus @ map snd q'"
proof (induction q arbitrary: remaining sdus q')
  case Nil
  then show ?case by simp
next
  case (Cons x q)
  obtain lcid p where x: "x = (lcid, p)" by (cases x)
  show ?case
  proof (cases "3 < remaining \<and> unat (ucast (GetSize p) :: u16) + 2 \<le> unat remaining")
    case True
    obtain sdus1 q1 where rest: "collect_sdus q (remaining - ((ucast (GetSize p) :: u16) + 2)) = (sdus1, q1)"
      by (cases "collect_sdus q (remaining - ((ucast (GetSize p) :: u16) + 2))")
    with Cons.prems x True have "sdus = p # sdus1" "q' = q1" by simp_all
    with Cons.IH [OF rest] x show ?thesis by simp
  next
    case False
    with Cons.prems x show ?thesis by auto
  qed
qed

lemma sps_dl_loop_exhausted:
  "avail \<le> used \<Longrightarrow> sps_dl_loop avail rs used mac = ([], mac)"
  by (cases rs) simp_all

lemma sps_dl_loop_single:
  "sps_dl_loop 1 rs 0 mac = (as, mac1) \<Longrightarrow>
   m_dlHarqManagers mac1 = m_dlHarqManagers mac \<and> m_phy mac1 = m_phy mac \<and>
   (as = [] \<or>
    (\<exists>a. as = [a] \<and> dl_harqProcess a = 0 \<and> dl_sdus a \<noteq> [] \<and>
         map snd (m_dlTxQueues mac (dl_rnti a)) = dl_sdus a @ map snd (m_dlTxQueues mac1 (dl_rnti a))))"
proof (induction rs arbitrary: as)
  case Nil
  then show ?case by simp
next
  case (Cons r rs)
  show ?case
  proof (cases "m_dlTxQueues mac r = []")
    case True
    with Cons.prems have "sps_dl_loop 1 rs 0 mac = (as, mac1)" by simp
    from Cons.IH [OF this] show ?thesis .
  next
    case False
    define mac' where "mac' = mac\<lparr>m_dlTxQueues := (m_dlTxQueues mac)(r := drop 8 (m_dlTxQueues mac r))\<rparr>"
    have "sps_dl_loop 1 rs (0 + 1) mac' = ([], mac')" by (rule sps_dl_loop_exhausted) simp
    with Cons.prems False have "mac1 = mac'"
      "as = [\<lparr>dl_rnti = r, dl_mcs = 4, dl_tbSize = 88, dl_numSubframes = 1,
                dl_repetitions = 1, dl_rv = 0, dl_newData = True, dl_harqProcess = 0,
                dl_sdus = map snd (take 8 (m_dlTxQueues mac r))\<rparr>]"
      by (simp_all add: Let_def mac'_def)
    moreover have "map snd (m_dlTxQueues mac r)
                     = map snd (take 8 (m_dlTxQueues mac r)) @ map snd (drop 8 (m_dlTxQueues mac r))"
      by (simp flip: map_append)
    ultimately show ?thesis using False by (simp add: mac'_def)
  qed
qed

lemma ScheduleDl_decision:
  assumes "ScheduleDl srt sch (Some mac) 1 = Inr (as, sch', m_mac')"
  shows "\<exists>mac1. m_mac' = Some mac1 \<and> m_dlHarqManagers mac1 = m_dlHarqManagers mac \<and>
           m_phy mac1 = m_phy mac \<and>
           (as = [] \<or>
            (\<exists>a. as = [a] \<and> dl_harqProcess a = 0 \<and> dl_sdus a \<noteq> [] \<and>
                 map snd (m_dlTxQueues mac (dl_rnti a))
                   = dl_sdus a @ map snd (m_dlTxQueues mac1 (dl_rnti a))))"
proof (cases sch)
  case (RoundRobin s)
  with assms show ?thesis
    by (auto simp: ScheduleDl_def RR_ScheduleDl_def Let_def dest: collect_sdus_split
             split: prod.splits option.splits if_splits)
next
  case CoverageClass
  with assms show ?thesis
    by (auto simp: ScheduleDl_def CC_ScheduleDl_def Let_def dest: collect_sdus_split
             split: prod.splits option.splits if_splits sum.splits list.splits)
next
  case (Sps s)
  with assms obtain mac1 where
    "sps_dl_loop 1 (map fst (m_ueContexts mac)) 0 mac = (as, mac1)" "m_mac' = Some mac1"
    by (auto simp: ScheduleDl_def SPS_ScheduleDl_def split: prod.splits)
  with sps_dl_loop_single [OF this(1)] show ?thesis by simp
qed

lemma transmit_dl_pdu_stores:
  assumes "map_of (m_dlHarqManagers mac) (dl_rnti a) = Some mgr"
    and "dl_harqProcess a = 0" and "0 < m_numProcesses mgr" and "m_processes mgr \<noteq> []"
  shows "\<exists>mac2. transmit_dl_pdu mac a = Inr mac2 \<and> m_dlTxQueues mac2 = m_dlTxQueues mac \<and>
           map_of (m_dlHarqManagers mac2) (dl_rnti a) =
             Some (mgr\<lparr>m_processes := (m_processes mgr)
                     [0 := (m_processes mgr ! 0)\<lparr>m_packet := Some (build_pdu a),
                             m_tbs := dl_tbSize a, m_active := True\<rparr>]\<rparr>) \<and>
           m_phy mac2 = map_option (\<lambda>calls. calls @
               [TransmitNpdsch (build_pdu a) (dl_rnti a) (dl_mcs a) (dl_repetitions a),
                TransmitNpdcch_N1 (dl_rnti a) (dl_mcs a) (dl_repetitions a) (dl_newData a) 0])
             (m_phy mac)"
  using assms
  by (auto simp: transmit_dl_pdu_def Let_def map_of_map_modify split: option.splits)


text \<open>
  Claim C7 (no free HARQ process), as the code has it. The downlink path never calls
  \<open>GetAvailableProcess\<close>. Whenever the scheduler returns an assignment for the
  subframe (it returns at most one), the SDUs of the assignment have already been
  removed from the front of the endpoint's queue by the scheduler, the assignment names
  HARQ process 0, and, if the endpoint has a HARQ manager with a non-empty pool,
  the downlink half of \<open>DoSchedule\<close> completes: it leaves the queue as the scheduler
  left it, writes the new block into process 0 and marks it active whatever that process
  held, and hands the block to the PHY. Nothing depends on whether any process of the
  pool is free.
\<close>

theorem dl_path_ignores_harq_availability:
  assumes sch: "m_scheduler mac = Some sch"
    and res: "ScheduleDl srt sch (Some mac) 1 = Inr (a # rest, sch', m_mac')"
  shows "rest = [] \<and> dl_sdus a \<noteq> [] \<and> dl_harqProcess a = 0 \<and>
         (\<exists>mac1. m_mac' = Some mac1 \<and>
            map snd (m_dlTxQueues mac (dl_rnti a))
              = dl_sdus a @ map snd (m_dlTxQueues mac1 (dl_rnti a)) \<and>
            (\<forall>mgr. map_of (m_dlHarqManagers mac) (dl_rnti a) = Some mgr \<and>
                   0 < m_numProcesses mgr \<and> m_processes mgr \<noteq> [] \<longrightarrow>
               (\<exists>mac2. DoScheduleDl srt mac = Inr mac2 \<and>
                  m_dlTxQueues mac2 = m_dlTxQueues mac1 \<and>
                  map_of (m_dlHarqManagers mac2) (dl_rnti a) =
                    Some (mgr\<lparr>m_processes := (m_processes mgr)
                            [0 := (m_processes mgr ! 0)\<lparr>m_packet := Some (build_pdu a),
                                    m_tbs := dl_tbSize a, m_active := True\<rparr>]\<rparr>) \<and>
                  m_phy mac2 = map_option (\<lambda>calls. calls @
                      [TransmitNpdsch (build_pdu a) (dl_rnti a) (dl_mcs a) (dl_repetitions a),
                       TransmitNpdcch_N1 (dl_rnti a) (dl_mcs a) (dl_repetitions a)
                         (dl_newData a) 0])
                    (m_phy mac))))"
proof -
  from ScheduleDl_decision [OF res] obtain mac1 where
    mac1: "m_mac' = Some mac1" and mgrs: "m_dlHarqManagers mac1 = m_dlHarqManagers mac"
    and phy: "m_phy mac1 = m_phy mac" and single: "rest = []" and harq: "dl_harqProcess a = 0"
    and sdus: "dl_sdus a \<noteq> []"
    and deq: "map snd (m_dlTxQueues mac (dl_rnti a)) = dl_sdus a @ map snd (m_dlTxQueues mac1 (dl_rnti a))"
    by auto
  have "\<exists>mac2. DoScheduleDl srt mac = Inr mac2 \<and>
                  m_dlTxQueues mac2 = m_dlTxQueues mac1 \<and>
                  map_of (m_dlHarqManagers mac2) (dl_rnti a) =
                    Some (mgr\<lparr>m_processes := (m_processes mgr)
                            [0 := (m_processes mgr ! 0)\<lparr>m_packet := Some (build_pdu a),
                                    m_tbs := dl_tbSize a, m_active := True\<rparr>]\<rparr>) \<and>
                  m_phy mac2 = map_option (\<lambda>calls. calls @
                      [TransmitNpdsch (build_pdu a) (dl_rnti a) (dl_mcs a) (dl_repetitions a),
                       TransmitNpdcch_N1 (dl_rnti a) (dl_mcs a) (dl_repetitions a)
                         (dl_newData a) 0])
                    (m_phy mac)"
    if mgr: "map_of (m_dlHarqManagers mac) (dl_rnti a) = Some mgr"
      "0 < m_numProcesses mgr" "m_processes mgr \<noteq> []" for mgr
  proof -
    define mac1' where "mac1' = mac1\<lparr>m_scheduler := Some sch'\<rparr>"
    have run: "DoScheduleDl srt mac = transmit_dl_pdu mac1' a"
      using sch res mac1 single
      by (simp add: DoScheduleDl_def mac_of_def mac1'_def split: sum.splits)
    have "map_of (m_dlHarqManagers mac1') (dl_rnti a) = Some mgr"
      using mgr(1) mgrs by (simp add: mac1'_def)
    from transmit_dl_pdu_stores [OF this harq mgr(2,3)] run phy
    show ?thesis by (simp add: mac1'_def)
  qed
  with mac1 single sdus harq deq show ?thesis by blast
qed



theorem dl_path_ignores_harq_availability_witness:
  "map_option GetAvailableProcess (map_of (m_dlHarqManagers mac_busy) 1) = Some (Inr (- 1))
   \<and> isl (DoScheduleDl stable_priority_sort mac_busy) = False
   \<and> queued (projr (DoScheduleDl stable_priority_sort mac_busy)) 1 = []
   \<and> map_option (\<lambda>mgr. m_active (m_processes mgr ! 0))
        (map_of (m_dlHarqManagers (projr (DoScheduleDl stable_priority_sort mac_busy))) 1) = Some True"
proof -
  define s0 where "s0 = NbIotRoundRobinScheduler_new\<lparr>m_lastDlRnti := 1\<rparr>"
  define x where "x = RR_ScheduleDl s0 (Some mac_busy) 1"
  define mgr where "mgr = the (map_of (m_dlHarqManagers mac_busy) 1)"
  have sch: "m_scheduler mac_busy = Some (RoundRobin s0)" unfolding s0_def by code_simp
  have "map (\<lambda>a. (dl_rnti a, dl_sdus a)) (fst x) = [(1, [Packet 2 10])]"
    unfolding x_def s0_def by code_simp
  then obtain a where a: "fst x = [a]" "dl_rnti a = 1" "dl_sdus a = [Packet 2 10]" by auto
  have res: "ScheduleDl stable_priority_sort (RoundRobin s0) (Some mac_busy) 1
               = Inr (a # [], RoundRobin (fst (snd x)), snd (snd x))"
    using a(1) by (auto simp: ScheduleDl_def x_def split: prod.splits)
  have none_free: "map_option GetAvailableProcess (map_of (m_dlHarqManagers mac_busy) 1) = Some (Inr (- 1))"
    by code_simp
  have "map_of (m_dlHarqManagers mac_busy) 1 \<noteq> None" by code_simp
  then have m1: "map_of (m_dlHarqManagers mac_busy) (dl_rnti a) = Some mgr"
    by (auto simp: mgr_def a(2))
  have m2: "0 < m_numProcesses mgr" unfolding mgr_def by code_simp
  have m3: "m_processes mgr \<noteq> []" unfolding mgr_def by code_simp
  have before: "map snd (m_dlTxQueues mac_busy 1) = [Packet 2 10]" by code_simp
  from dl_path_ignores_harq_availability [OF sch res]
  obtain mac1 :: NbIotEnbMac where
    deq: "map snd (m_dlTxQueues mac_busy (dl_rnti a)) = dl_sdus a @ map snd (m_dlTxQueues mac1 (dl_rnti a))"
    and stored: "\<forall>mgr. map_of (m_dlHarqManagers mac_busy) (dl_rnti a) = Some mgr \<and>
                   0 < m_numProcesses mgr \<and> m_processes mgr \<noteq> [] \<longrightarrow>
               (\<exists>mac2. DoScheduleDl stable_priority_sort mac_busy = Inr mac2 \<and>
                  m_dlTxQueues mac2 = m_dlTxQueues mac1 \<and>
                  map_of (m_dlHarqManagers mac2) (dl_rnti a) =
                    Some (mgr\<lparr>m_processes := (m_processes mgr)
                            [0 := (m_processes mgr ! 0)\<lparr>m_packet := Some (build_pdu a),
                                    m_tbs := dl_tbSize a, m_active := True\<rparr>]\<rparr>) \<and>
                  m_phy mac2 = map_option (\<lambda>calls. calls @
                      [TransmitNpdsch (build_pdu a) (dl_rnti a) (dl_mcs a) (dl_repetitions a),
                       TransmitNpdcch_N1 (dl_rnti a) (dl_mcs a) (dl_repetitions a)
                         (dl_newData a) 0])
                    (m_phy mac_busy))"
    by (elim conjE exE) (rule that; assumption)
  from stored [rule_format, OF conjI [OF m1 conjI [OF m2 m3]]]
  obtain mac2 :: NbIotEnbMac where
    run: "DoScheduleDl stable_priority_sort mac_busy = Inr mac2"
    and q: "m_dlTxQueues mac2 = m_dlTxQueues mac1"
    and h: "map_of (m_dlHarqManagers mac2) (dl_rnti a) =
              Some (mgr\<lparr>m_processes := (m_processes mgr)
                      [0 := (m_processes mgr ! 0)\<lparr>m_packet := Some (build_pdu a),
                              m_tbs := dl_tbSize a, m_active := True\<rparr>]\<rparr>)"
    by (elim conjE exE) (rule that; assumption)
  from deq before a have "map snd (m_dlTxQueues mac1 1) = []" by simp
  with q have "queued mac2 1 = []" by (simp add: queued_def)
  moreover from h m3 a have "map_option (\<lambda>mgr. m_active (m_processes mgr ! 0))
        (map_of (m_dlHarqManagers mac2) 1) = Some True" by simp
  ultimately show ?thesis using run none_free by simp
qed


text \<open>
  Claim C7 as stated says that with no free HARQ process the assignment is dropped and
  the queue left unchanged. In \<open>mac_busy\<close> the only process of endpoint 1 is active and
  holds the unacknowledged first block, so \<open>GetAvailableProcess\<close> answers \<open>-1\<close>; the
  next subframe still dequeues the second SDU, sends it, and overwrites the first block
  in process 0.
\<close>


theorem dl_sent_without_free_process:
  "map_option GetAvailableProcess (map_of (m_dlHarqManagers mac_busy) 1) = Some (Inr (- 1))
   \<and> queued mac_busy 1 = [Packet 2 10]
   \<and> harq_view mac_busy 1 = Some [(True, Some [Packet 1 10])]
   \<and> sent_blocks mac_busy = [[Packet 1 10]]
   \<and> isl (DoScheduleDl stable_priority_sort mac_busy) = False
   \<and> queued (projr (DoScheduleDl stable_priority_sort mac_busy)) 1 = []
   \<and> harq_view (projr (DoScheduleDl stable_priority_sort mac_busy)) 1 = Some [(True, Some [Packet 2 10])]
   \<and> sent_blocks (projr (DoScheduleDl stable_priority_sort mac_busy)) = [[Packet 1 10], [Packet 2 10]]"
  by code_simp


end
